theory Spec2Isabelle
  imports Complex_Main "HOL-Library.Multiset" "HOL-Library.Sublist"
begin

section \<open>One-dimensional Voronoi partitioning with Lloyd relaxation\<close>

text \<open>
  The repository holds three copies of \<open>partition_voronoi\<close>: the library version
  (\<open>src/unnamed/part_000\<close>), the first desktop application and the second desktop
  application. Lines 21-27 and 39-64 of the library version are the same statements in
  all three; the first application repeats the library version's random branch, the
  second application adds a \<open>lo == hi\<close> test to it.

  Python floats are modelled as \<open>real\<close> (the data model of the specification), and
  subtraction, absolute value, the quantile interpolation and \<open>random.uniform\<close> are
  exact. Two places of the code are not left to exact arithmetic:
  \<^item> the elements of \<open>values\<close> are Python numbers, either \<open>int\<close> or \<open>float\<close>;
    \<open>np.array(values, dtype=float)\<close> converts them and raises \<open>OverflowError\<close> for an
    \<open>int\<close> beyond the range of a double, while the clusters are filled with the
    elements of \<open>values\<close> themselves;
  \<^item> \<open>members.mean()\<close> is computed in double precision, and whether a seed moves is
    decided by comparing its result with the old seed for equality. The function that
    returns the mean of a non-empty array is therefore a parameter of the model, with two
    instances: the exact quotient, and the double-precision computation of numpy for
    short arrays.
  Infinities and NaN are outside the model.
\<close>

subsection \<open>Data\<close>

datatype pynum = PInt int | PFloat real

datatype error =
    ValueError string
  | OverflowError
  | IndexError
  | NanMean

text \<open>
  The process-wide random source, as the sequence of the results that the coming calls
  of \<open>random.random()\<close> return. Consuming \<open>n\<close> draws shifts the sequence by \<open>n\<close>.
\<close>

type_synonym rng = "nat \<Rightarrow> real"

text \<open>What \<open>a.mean()\<close> returns for a non-empty array \<open>a\<close>.\<close>

type_synonym array_mean = "real list \<Rightarrow> real"

subsection \<open>Library functions used by the code\<close>

text \<open>
  The conversion of one element by \<open>np.array(values, dtype=float)\<close> (line 26). An \<open>int\<close>
  is rounded to the nearest double, ties to even; the largest double is
  \<open>2^1024 - 2^971\<close>, so an \<open>int\<close> of magnitude \<open>2^1024 - 2^970\<close> or more has no double
  and the conversion raises \<open>OverflowError\<close>. The rounding of the other ints is not
  modelled.
\<close>

fun to_float :: "pynum \<Rightarrow> error + real" where
  "to_float (PInt i) =
     (if 2 ^ 1024 - 2 ^ 970 \<le> \<bar>i\<bar> then Inl OverflowError else Inr (real_of_int i))"
| "to_float (PFloat x) = Inr x"

text \<open>Building a list element by element; the first error ends it.\<close>

fun collect :: "(error + 'a) list \<Rightarrow> error + 'a list" where
  "collect [] = Inr []"
| "collect (r # rs) =
     (case r of
        Inl e \<Rightarrow> Inl e
      | Inr x \<Rightarrow> (case collect rs of Inl e \<Rightarrow> Inl e | Inr xs \<Rightarrow> Inr (x # xs)))"

definition np_array :: "pynum list \<Rightarrow> error + real list" where
  "np_array vals = collect (map to_float vals)"

text \<open>\<open>random.uniform(a, b)\<close> is \<open>a + (b - a) * random()\<close>.\<close>

definition uniform :: "real \<Rightarrow> real \<Rightarrow> real \<Rightarrow> real" where
  "uniform a b r = a + (b - a) * r"

text \<open>\<open>arr.min()\<close> and \<open>arr.max()\<close>; both raise on an empty array.\<close>

fun array_min :: "real list \<Rightarrow> error + real" where
  "array_min [] = Inl (ValueError ''zero-size array to reduction operation minimum which has no identity'')"
| "array_min (x # xs) = Inr (fold min xs x)"

fun array_max :: "real list \<Rightarrow> error + real" where
  "array_max [] = Inl (ValueError ''zero-size array to reduction operation maximum which has no identity'')"
| "array_max (x # xs) = Inr (fold max xs x)"

text \<open>
  \<open>np.linspace(0, 1, n_seeds + 2)[1:-1]\<close>: the grid has \<open>n_seeds + 2\<close> points
  \<open>i / (n_seeds + 1)\<close>; the slice keeps those with \<open>1 \<le> i \<le> n_seeds\<close>.
\<close>

definition probs :: "nat \<Rightarrow> real list" where
  "probs n = map (\<lambda>i. real i / real (n + 1)) [1..<n + 1]"

text \<open>
  \<open>np.quantile(a, p)\<close> with the default linear interpolation on a sorted array: the
  virtual index is \<open>p * (len(a) - 1)\<close>, the result interpolates between the two
  neighbouring order statistics. A probability outside \<open>[0, 1]\<close> raises; an empty
  array has no order statistic to read.
\<close>

definition quantile :: "real list \<Rightarrow> real \<Rightarrow> error + real" where
  "quantile a p =
     (if p < 0 \<or> 1 < p then Inl (ValueError ''Quantiles must be in the range [0, 1]'')
      else if a = [] then Inl IndexError
      else
        let n = length a;
            h = p * real (n - 1);
            j = nat \<lfloor>h\<rfloor>;
            g = h - real j;
            j1 = min (j + 1) (n - 1)
        in Inr (a ! j + g * (a ! j1 - a ! j)))"

text \<open>
  \<open>argmin\<close> along a row: the index of the first occurrence of the minimum. The scan
  keeps the best index and value so far and replaces them only by a strictly smaller
  entry.
\<close>

fun argmin_scan :: "real list \<Rightarrow> nat \<Rightarrow> nat \<Rightarrow> real \<Rightarrow> nat" where
  "argmin_scan [] i bi bv = bi"
| "argmin_scan (y # ys) i bi bv =
     (if y < bv then argmin_scan ys (Suc i) i y else argmin_scan ys (Suc i) bi bv)"

fun argmin :: "real list \<Rightarrow> nat" where
  "argmin [] = 0"
| "argmin (x # xs) = argmin_scan xs 1 0 x"

subsection \<open>The mean of an array\<close>

text \<open>The mean in exact arithmetic: the sum divided by the number of elements.\<close>

definition exact_mean :: array_mean where
  "exact_mean xs = sum_list xs / real (length xs)"

text \<open>
  The mean in double precision. A double has a significand of 53 bits: in the binade
  \<open>[2^e, 2^(e+1))\<close> the doubles are the multiples of \<open>2^(e-52)\<close>, with \<open>e\<close> between
  \<open>-1022\<close> and \<open>1023\<close>; below \<open>2^(-1022)\<close> the spacing stays \<open>2^(-1074)\<close>. Every
  arithmetic result is rounded to the nearest double, a tie to the one with the even
  significand. Results of magnitude \<open>2^1024\<close> or more (infinities) are outside the
  model.
\<close>

definition round_half_even :: "real \<Rightarrow> int" where
  "round_half_even x =
     (let f = \<lfloor>x\<rfloor>; d = x - real_of_int f
      in if d < 1 / 2 then f else if 1 / 2 < d then f + 1 else if even f then f else f + 1)"

fun exponent_search :: "nat \<Rightarrow> int \<Rightarrow> real \<Rightarrow> int" where
  "exponent_search 0 e x = e"
| "exponent_search (Suc k) e x = (if 2 powi e \<le> x then e else exponent_search k (e - 1) x)"

definition exponent_f64 :: "real \<Rightarrow> int" where
  "exponent_f64 x = exponent_search 2045 1023 \<bar>x\<bar>"

definition round_f64 :: "real \<Rightarrow> real" where
  "round_f64 x =
     (let u = 2 powi (exponent_f64 x - 52) in u * real_of_int (round_half_even (x / u)))"

text \<open>
  numpy adds the elements of an array of fewer than eight elements one by one, starting
  from zero, and \<open>mean\<close> divides the sum by the number of elements; each addition and the
  division round. (Longer arrays are summed in blocks, in another order: \<open>mean_f64\<close> is
  the mean of numpy for fewer than eight elements only.)
\<close>

definition sum_f64 :: "real list \<Rightarrow> real" where
  "sum_f64 xs = fold (\<lambda>x s. round_f64 (s + x)) xs 0"

definition mean_f64 :: array_mean where
  "mean_f64 xs = round_f64 (sum_f64 xs / real (length xs))"

text \<open>
  \<open>members.mean()\<close>, with the mean of a non-empty array as its first argument; on an
  empty array numpy yields NaN, which \<open>real\<close> lacks.
\<close>

definition mean :: "array_mean \<Rightarrow> real list \<Rightarrow> error + real" where
  "mean array_mean xs = (if length xs = 0 then Inl NanMean else Inr (array_mean xs))"

subsection \<open>Nearest-seed assignment (lines 43 and 59)\<close>

text \<open>
  \<open>np.abs(arr[:, None] - seeds[None, :]).argmin(axis=1)\<close>: one row of distances per
  value, reduced by \<open>argmin\<close>. Reducing along an axis of length zero raises.
\<close>

definition distances :: "real list \<Rightarrow> real \<Rightarrow> real list" where
  "distances seeds a = map (\<lambda>s. \<bar>a - s\<bar>) seeds"

definition assign :: "real list \<Rightarrow> real list \<Rightarrow> error + nat list" where
  "assign arr seeds =
     (if seeds = [] then Inl (ValueError ''attempt to get argmin of an empty sequence'')
      else Inr (map (\<lambda>a. argmin (distances seeds a)) arr))"

text \<open>\<open>arr[idx == s]\<close>: the entries whose assigned index is \<open>s\<close>, in order.\<close>

definition members :: "'a list \<Rightarrow> nat list \<Rightarrow> nat \<Rightarrow> 'a list" where
  "members arr idx s = map fst (filter (\<lambda>(a, k). k = s) (zip arr idx))"

subsection \<open>One Lloyd pass (lines 43-54)\<close>

text \<open>
  The inner loop over \<open>s in range(n_seeds)\<close>, carrying \<open>new_seeds\<close> and \<open>moved\<close>.
  Reading \<open>seeds[s]\<close> or writing \<open>new_seeds[s]\<close> out of range raises IndexError.
\<close>

fun update_seeds ::
  "array_mean \<Rightarrow> real list \<Rightarrow> nat list \<Rightarrow> real list \<Rightarrow> nat list \<Rightarrow> real list \<times> bool \<Rightarrow>
     error + real list \<times> bool"
where
  "update_seeds array_mean arr idx seeds [] (new_seeds, moved) = Inr (new_seeds, moved)"
| "update_seeds array_mean arr idx seeds (s # ss) (new_seeds, moved) =
     (let ms = members arr idx s in
      if length ms > 0 then
        (case mean array_mean ms of
           Inl e \<Rightarrow> Inl e
         | Inr new_pos \<Rightarrow>
             if s < length seeds \<and> s < length new_seeds then
               update_seeds array_mean arr idx seeds ss
                 (new_seeds[s := new_pos], moved \<or> new_pos \<noteq> seeds ! s)
             else Inl IndexError)
      else update_seeds array_mean arr idx seeds ss (new_seeds, moved))"

definition lloyd_pass ::
  "array_mean \<Rightarrow> real list \<Rightarrow> nat \<Rightarrow> real list \<Rightarrow> error + real list \<times> bool"
where
  "lloyd_pass array_mean arr n_seeds seeds =
     (case assign arr seeds of
        Inl e \<Rightarrow> Inl e
      | Inr idx \<Rightarrow> update_seeds array_mean arr idx seeds [0..<n_seeds] (seeds, False))"

subsection \<open>The relaxation loop (lines 40-56)\<close>

text \<open>
  \<open>for _ in range(int(lloyd_iters))\<close> with its \<open>break\<close>: the second argument is the
  number of passes still allowed.
\<close>

fun lloyd_loop ::
  "array_mean \<Rightarrow> nat \<Rightarrow> real list \<Rightarrow> nat \<Rightarrow> real list \<Rightarrow> error + real list"
where
  "lloyd_loop array_mean 0 arr n_seeds seeds = Inr seeds"
| "lloyd_loop array_mean (Suc k) arr n_seeds seeds =
     (case lloyd_pass array_mean arr n_seeds seeds of
        Inl e \<Rightarrow> Inl e
      | Inr (new_seeds, moved) \<Rightarrow>
          if \<not> moved then Inr new_seeds else lloyd_loop array_mean k arr n_seeds new_seeds)"

text \<open>
  The number of passes that the loop above executes: the same recursion, counting.
  It is a ghost quantity, used only to state when the loop stops.
\<close>

fun passes_run :: "array_mean \<Rightarrow> nat \<Rightarrow> real list \<Rightarrow> nat \<Rightarrow> real list \<Rightarrow> nat" where
  "passes_run array_mean 0 arr n_seeds seeds = 0"
| "passes_run array_mean (Suc k) arr n_seeds seeds =
     (case lloyd_pass array_mean arr n_seeds seeds of
        Inl e \<Rightarrow> 1
      | Inr (new_seeds, moved) \<Rightarrow>
          if \<not> moved then 1 else Suc (passes_run array_mean k arr n_seeds new_seeds))"

subsection \<open>Final partition (lines 59-64)\<close>

text \<open>\<open>clusters[int(k)].append(val)\<close> for each pair of \<open>zip(values, idx)\<close>.\<close>

fun build_clusters :: "('a \<times> nat) list \<Rightarrow> 'a list list \<Rightarrow> error + 'a list list" where
  "build_clusters [] clusters = Inr clusters"
| "build_clusters ((val, k) # rest) clusters =
     (if k < length clusters
      then build_clusters rest (clusters[k := clusters ! k @ [val]])
      else Inl IndexError)"

text \<open>Lines 39-64: the relaxation loop, the final assignment and the clusters.\<close>

definition relax_and_partition ::
  "array_mean \<Rightarrow> pynum list \<Rightarrow> real list \<Rightarrow> nat \<Rightarrow> int \<Rightarrow> real list \<Rightarrow>
     error + pynum list list \<times> real list"
where
  "relax_and_partition array_mean vals arr n_seeds lloyd_iters seeds0 =
     (case lloyd_loop array_mean (nat lloyd_iters) arr n_seeds seeds0 of
        Inl e \<Rightarrow> Inl e
      | Inr seeds \<Rightarrow>
          (case assign arr seeds of
             Inl e \<Rightarrow> Inl e
           | Inr idx \<Rightarrow>
               (case build_clusters (zip vals idx) (replicate n_seeds []) of
                  Inl e \<Rightarrow> Inl e
                | Inr clusters \<Rightarrow> Inr (clusters, seeds))))"

subsection \<open>Seed initialisation\<close>

text \<open>The quantile branch (lines 31-33), the same in the three files.\<close>

definition quantile_seeds :: "real list \<Rightarrow> nat \<Rightarrow> error + real list" where
  "quantile_seeds arr n_seeds =
     (let sorted_vals = sort arr in collect (map (quantile sorted_vals) (probs n_seeds)))"

text \<open>The random branch of the library version and of the first application (lines 36-37).\<close>

definition random_seeds :: "real list \<Rightarrow> nat \<Rightarrow> rng \<Rightarrow> (error + real list) \<times> rng" where
  "random_seeds arr n_seeds rnd =
     (case array_min arr of
        Inl e \<Rightarrow> (Inl e, rnd)
      | Inr lo \<Rightarrow>
          (case array_max arr of
             Inl e \<Rightarrow> (Inl e, rnd)
           | Inr hi \<Rightarrow>
               (Inr (map (\<lambda>i. uniform lo hi (rnd i)) [0..<n_seeds]), \<lambda>i. rnd (i + n_seeds))))"

text \<open>The random branch of the second application (lines 36-40), with its \<open>lo == hi\<close> test.\<close>

definition random_seeds_2 :: "real list \<Rightarrow> nat \<Rightarrow> rng \<Rightarrow> (error + real list) \<times> rng" where
  "random_seeds_2 arr n_seeds rnd =
     (case array_min arr of
        Inl e \<Rightarrow> (Inl e, rnd)
      | Inr lo \<Rightarrow>
          (case array_max arr of
             Inl e \<Rightarrow> (Inl e, rnd)
           | Inr hi \<Rightarrow>
               if lo = hi then (Inr (map (\<lambda>i. lo) [0..<n_seeds]), rnd)
               else (Inr (map (\<lambda>i. uniform lo hi (rnd i)) [0..<n_seeds]), \<lambda>i. rnd (i + n_seeds))))"

subsection \<open>The function\<close>

text \<open>
  The result pairs what the call returns or raises with the random source it leaves
  behind. \<open>partition_voronoi\<close> is the library version and the first application,
  \<open>partition_voronoi_2\<close> the second application. The first argument is the mean that
  \<open>members.mean()\<close> computes; the others are the arguments of the Python function and
  the random source.
\<close>

definition partition_voronoi ::
  "array_mean \<Rightarrow> pynum list \<Rightarrow> int \<Rightarrow> int \<Rightarrow> string \<Rightarrow> rng \<Rightarrow>
     (error + pynum list list \<times> real list) \<times> rng"
where
  "partition_voronoi array_mean vals n_seeds lloyd_iters init_method rnd =
     (if n_seeds \<le> 0 then (Inl (ValueError ''n_seeds must be >= 1''), rnd)
      else if length vals = 0 then (Inr (replicate (nat n_seeds) [], []), rnd)
      else
        (case np_array vals of
           Inl e \<Rightarrow> (Inl e, rnd)
         | Inr arr \<Rightarrow>
             let (init, rnd') =
                   (if init_method = ''quantile'' then (quantile_seeds arr (nat n_seeds), rnd)
                    else random_seeds arr (nat n_seeds) rnd)
             in (case init of
                   Inl e \<Rightarrow> Inl e
                 | Inr seeds \<Rightarrow>
                     relax_and_partition array_mean vals arr (nat n_seeds) lloyd_iters seeds,
                 rnd')))"

definition partition_voronoi_2 ::
  "array_mean \<Rightarrow> pynum list \<Rightarrow> int \<Rightarrow> int \<Rightarrow> string \<Rightarrow> rng \<Rightarrow>
     (error + pynum list list \<times> real list) \<times> rng"
where
  "partition_voronoi_2 array_mean vals n_seeds lloyd_iters init_method rnd =
     (if n_seeds \<le> 0 then (Inl (ValueError ''n_seeds must be >= 1''), rnd)
      else if length vals = 0 then (Inr (replicate (nat n_seeds) [], []), rnd)
      else
        (case np_array vals of
           Inl e \<Rightarrow> (Inl e, rnd)
         | Inr arr \<Rightarrow>
             let (init, rnd') =
                   (if init_method = ''quantile'' then (quantile_seeds arr (nat n_seeds), rnd)
                    else random_seeds_2 arr (nat n_seeds) rnd)
             in (case init of
                   Inl e \<Rightarrow> Inl e
                 | Inr seeds \<Rightarrow>
                     relax_and_partition array_mean vals arr (nat n_seeds) lloyd_iters seeds,
                 rnd')))"

section \<open>Properties\<close>

subsection \<open>The first minimum\<close>

lemma argmin_scan_spec:
  assumes "i = length pre" "bi < length pre" "pre ! bi = bv"
    "\<forall>t<length pre. bv \<le> pre ! t" "\<forall>t<bi. bv < pre ! t"
  shows "argmin_scan ys i bi bv < length (pre @ ys) \<and>
         (\<forall>t<length (pre @ ys). (pre @ ys) ! argmin_scan ys i bi bv \<le> (pre @ ys) ! t) \<and>
         (\<forall>t<argmin_scan ys i bi bv. (pre @ ys) ! argmin_scan ys i bi bv < (pre @ ys) ! t)"
  using assms
proof (induction ys arbitrary: pre i bi bv)
  case Nil
  then show ?case by auto
next
  case (Cons y ys)
  show ?case
  proof (cases "y < bv")
    case True
    have a: "Suc i = length (pre @ [y])" using Cons.prems by simp
    have b: "i < length (pre @ [y])" using Cons.prems by simp
    have c: "(pre @ [y]) ! i = y" using Cons.prems by simp
    have d: "\<forall>t<length (pre @ [y]). y \<le> (pre @ [y]) ! t"
      using Cons.prems True by (auto simp: nth_append less_Suc_eq)
    have e: "\<forall>t<i. y < (pre @ [y]) ! t"
      using Cons.prems True by (auto simp: nth_append)
    from Cons.IH[OF a b c d e] True show ?thesis by simp
  next
    case False
    have a: "Suc i = length (pre @ [y])" using Cons.prems by simp
    have b: "bi < length (pre @ [y])" using Cons.prems by simp
    have c: "(pre @ [y]) ! bi = bv" using Cons.prems by (simp add: nth_append)
    have d: "\<forall>t<length (pre @ [y]). bv \<le> (pre @ [y]) ! t"
      using Cons.prems False by (auto simp: nth_append less_Suc_eq)
    have e: "\<forall>t<bi. bv < (pre @ [y]) ! t"
      using Cons.prems False by (auto simp: nth_append)
    from Cons.IH[OF a b c d e] False show ?thesis by simp
  qed
qed

lemma argmin_first_min:
  assumes "d \<noteq> []"
  shows "argmin d < length d \<and> (\<forall>t<length d. d ! argmin d \<le> d ! t) \<and>
         (\<forall>t<argmin d. d ! argmin d < d ! t)"
proof -
  obtain x xs where d: "d = x # xs" using assms by (cases d) auto
  have "argmin_scan xs 1 0 x < length ([x] @ xs) \<and>
         (\<forall>t<length ([x] @ xs). ([x] @ xs) ! argmin_scan xs 1 0 x \<le> ([x] @ xs) ! t) \<and>
         (\<forall>t<argmin_scan xs 1 0 x. ([x] @ xs) ! argmin_scan xs 1 0 x < ([x] @ xs) ! t)"
    by (rule argmin_scan_spec) auto
  then show ?thesis using d by simp
qed

subsection \<open>Assignment and cluster building\<close>

lemma assign_bound:
  assumes "assign arr seeds = Inr idx" "j < length arr"
  shows "idx ! j < length seeds"
proof -
  from assms(1) have ne: "seeds \<noteq> []" and idx: "idx = map (\<lambda>a. argmin (distances seeds a)) arr"
    by (auto simp: assign_def split: if_splits)
  have "distances seeds (arr ! j) \<noteq> []" using ne by (simp add: distances_def)
  from argmin_first_min[OF this] have "argmin (distances seeds (arr ! j)) < length seeds"
    by (simp add: distances_def)
  then show ?thesis using idx assms(2) by simp
qed

lemma mset_concat_update:
  "k < length cl \<Longrightarrow> mset (concat (cl[k := cl ! k @ [v]])) = mset (concat cl) + {#v#}"
proof (induction cl arbitrary: k)
  case Nil
  then show ?case by simp
next
  case (Cons c cl)
  then show ?case by (cases k) auto
qed

lemma build_clusters_ok:
  assumes "\<forall>p\<in>set ps. snd p < length cl"
  shows "\<exists>cl'. build_clusters ps cl = Inr cl' \<and> length cl' = length cl \<and>
           (\<forall>k<length cl. cl' ! k = cl ! k @ map fst (filter (\<lambda>(v, i). i = k) ps))"
  using assms
proof (induction ps arbitrary: cl)
  case Nil
  then show ?case by simp
next
  case (Cons p ps)
  obtain v k where p: "p = (v, k)" by (cases p)
  let ?cl = "cl[k := cl ! k @ [v]]"
  have k: "k < length cl" using Cons.prems p by simp
  have "\<forall>q\<in>set ps. snd q < length ?cl" using Cons.prems by simp
  from Cons.IH[OF this] obtain cl' where
    b: "build_clusters ps ?cl = Inr cl'" and l: "length cl' = length ?cl" and
    c: "\<forall>j<length ?cl. cl' ! j = ?cl ! j @ map fst (filter (\<lambda>(v, i). i = j) ps)"
    by blast
  have "\<forall>j<length cl. cl' ! j = cl ! j @ map fst (filter (\<lambda>(v, i). i = j) (p # ps))"
  proof (intro allI impI)
    fix j assume j: "j < length cl"
    then have "cl' ! j = ?cl ! j @ map fst (filter (\<lambda>(v, i). i = j) ps)" using c by simp
    then show "cl' ! j = cl ! j @ map fst (filter (\<lambda>(v, i). i = j) (p # ps))"
      using p k j by (cases "j = k") auto
  qed
  then show ?case using b l p k by simp
qed

lemma build_clusters_mset:
  "build_clusters ps cl = Inr cl' \<Longrightarrow> mset (concat cl') = mset (concat cl) + mset (map fst ps)"
proof (induction ps arbitrary: cl)
  case Nil
  then show ?case by simp
next
  case (Cons p ps)
  obtain v k where p: "p = (v, k)" by (cases p)
  from Cons.prems p have k: "k < length cl" and
    b: "build_clusters ps (cl[k := cl ! k @ [v]]) = Inr cl'"
    by (auto split: if_splits)
  from Cons.IH[OF b] mset_concat_update[OF k] show ?case using p by simp
qed

subsection \<open>The Lloyd pass and the relaxation loop\<close>

lemma mean_nonempty: "ms \<noteq> [] \<Longrightarrow> mean fm ms = Inr (fm ms)"
  by (simp add: mean_def)

lemma update_seeds_spec:
  assumes "distinct ss" "\<forall>s\<in>set ss. s < length seeds" "length new_seeds = length seeds"
  shows "\<exists>ns mv. update_seeds fm arr idx seeds ss (new_seeds, moved) = Inr (ns, mv) \<and>
           length ns = length seeds \<and>
           (\<forall>t<length seeds. ns ! t =
              (if t \<in> set ss \<and> members arr idx t \<noteq> []
               then fm (members arr idx t)
               else new_seeds ! t)) \<and>
           (mv = (moved \<or> (\<exists>t\<in>set ss. members arr idx t \<noteq> [] \<and>
              fm (members arr idx t) \<noteq> seeds ! t)))"
  using assms
proof (induction ss arbitrary: new_seeds moved)
  case Nil
  then show ?case by simp
next
  case (Cons s ss)
  let ?ms = "members arr idx s"
  let ?c = "fm ?ms"
  have d: "distinct ss" and notin: "s \<notin> set ss" using Cons.prems(1) by auto
  have b: "\<forall>t\<in>set ss. t < length seeds" using Cons.prems(2) by simp
  have s: "s < length seeds" using Cons.prems(2) by simp
  show ?case
  proof (cases "?ms = []")
    case True
    from Cons.IH[OF d b Cons.prems(3), of moved] obtain ns mv where
      r: "update_seeds fm arr idx seeds ss (new_seeds, moved) = Inr (ns, mv)" and
      l: "length ns = length seeds" and
      v: "\<forall>t<length seeds. ns ! t =
              (if t \<in> set ss \<and> members arr idx t \<noteq> []
               then fm (members arr idx t)
               else new_seeds ! t)" and
      m: "mv = (moved \<or> (\<exists>t\<in>set ss. members arr idx t \<noteq> [] \<and>
              fm (members arr idx t) \<noteq> seeds ! t))"
      by blast
    have r': "update_seeds fm arr idx seeds (s # ss) (new_seeds, moved) = Inr (ns, mv)"
      using True r by simp
    have v': "\<forall>t<length seeds. ns ! t =
              (if t \<in> set (s # ss) \<and> members arr idx t \<noteq> []
               then fm (members arr idx t)
               else new_seeds ! t)"
      using v True by auto
    have m': "mv = (moved \<or> (\<exists>t\<in>set (s # ss). members arr idx t \<noteq> [] \<and>
              fm (members arr idx t) \<noteq> seeds ! t))"
      using m True by auto
    show ?thesis using r' l v' m' by blast
  next
    case False
    have l0: "length (new_seeds[s := ?c]) = length seeds" using Cons.prems(3) by simp
    from Cons.IH[OF d b l0, of "moved \<or> ?c \<noteq> seeds ! s"] obtain ns mv where
      r: "update_seeds fm arr idx seeds ss (new_seeds[s := ?c], moved \<or> ?c \<noteq> seeds ! s) = Inr (ns, mv)" and
      l: "length ns = length seeds" and
      v: "\<forall>t<length seeds. ns ! t =
              (if t \<in> set ss \<and> members arr idx t \<noteq> []
               then fm (members arr idx t)
               else new_seeds[s := ?c] ! t)" and
      m: "mv = ((moved \<or> ?c \<noteq> seeds ! s) \<or> (\<exists>t\<in>set ss. members arr idx t \<noteq> [] \<and>
              fm (members arr idx t) \<noteq> seeds ! t))"
      by blast
    have r': "update_seeds fm arr idx seeds (s # ss) (new_seeds, moved) = Inr (ns, mv)"
      using False r s Cons.prems(3) by (simp add: mean_nonempty)
    have v': "\<forall>t<length seeds. ns ! t =
              (if t \<in> set (s # ss) \<and> members arr idx t \<noteq> []
               then fm (members arr idx t)
               else new_seeds ! t)"
    proof (intro allI impI)
      fix t assume t: "t < length seeds"
      show "ns ! t =
              (if t \<in> set (s # ss) \<and> members arr idx t \<noteq> []
               then fm (members arr idx t)
               else new_seeds ! t)"
      proof (cases "t = s")
        case True
        then show ?thesis using v t notin False Cons.prems(3) by simp
      next
        case neq: False
        then show ?thesis using v t by simp
      qed
    qed
    have m': "mv = (moved \<or> (\<exists>t\<in>set (s # ss). members arr idx t \<noteq> [] \<and>
              fm (members arr idx t) \<noteq> seeds ! t))"
      using m False by auto
    show ?thesis using r' l v' m' by blast
  qed
qed

lemma lloyd_pass_spec:
  assumes "length seeds = n" "0 < n"
  shows "\<exists>idx ns mv. assign arr seeds = Inr idx \<and> lloyd_pass fm arr n seeds = Inr (ns, mv) \<and>
           length ns = n \<and>
           (\<forall>t<n. ns ! t =
              (if members arr idx t \<noteq> []
               then fm (members arr idx t)
               else seeds ! t)) \<and>
           (mv = (ns \<noteq> seeds))"
proof -
  have ne: "seeds \<noteq> []" using assms by auto
  define idx where "idx = map (\<lambda>a. argmin (distances seeds a)) arr"
  have a: "assign arr seeds = Inr idx" using ne by (simp add: assign_def idx_def)
  have "\<exists>ns mv. update_seeds fm arr idx seeds [0..<n] (seeds, False) = Inr (ns, mv) \<and>
           length ns = length seeds \<and>
           (\<forall>t<length seeds. ns ! t =
              (if t \<in> set [0..<n] \<and> members arr idx t \<noteq> []
               then fm (members arr idx t)
               else seeds ! t)) \<and>
           (mv = (False \<or> (\<exists>t\<in>set [0..<n]. members arr idx t \<noteq> [] \<and>
              fm (members arr idx t) \<noteq> seeds ! t)))"
    by (rule update_seeds_spec) (use assms in auto)
  then obtain ns mv where
    r: "update_seeds fm arr idx seeds [0..<n] (seeds, False) = Inr (ns, mv)" and
    l0: "length ns = length seeds" and
    v0: "\<forall>t<length seeds. ns ! t =
              (if t \<in> set [0..<n] \<and> members arr idx t \<noteq> []
               then fm (members arr idx t)
               else seeds ! t)" and
    m0: "mv = (False \<or> (\<exists>t\<in>set [0..<n]. members arr idx t \<noteq> [] \<and>
              fm (members arr idx t) \<noteq> seeds ! t))"
    by blast
  have l: "length ns = n" using l0 assms(1) by simp
  have v: "\<forall>t<n. ns ! t =
              (if members arr idx t \<noteq> []
               then fm (members arr idx t)
               else seeds ! t)"
    using v0 assms(1) by simp
  have m: "mv = (\<exists>t<n. members arr idx t \<noteq> [] \<and>
              fm (members arr idx t) \<noteq> seeds ! t)"
    using m0 by auto
  have p: "lloyd_pass fm arr n seeds = Inr (ns, mv)" using a r by (simp add: lloyd_pass_def)
  have "mv = (ns \<noteq> seeds)"
  proof
    assume mv
    then obtain t where "t < n" "members arr idx t \<noteq> []"
      "fm (members arr idx t) \<noteq> seeds ! t"
      using m by blast
    then have "ns ! t \<noteq> seeds ! t" using v by simp
    then show "ns \<noteq> seeds" by auto
  next
    assume "ns \<noteq> seeds"
    then obtain t where t: "t < n" "ns ! t \<noteq> seeds ! t"
      using l assms(1) by (auto simp: list_eq_iff_nth_eq)
    then have "members arr idx t \<noteq> [] \<and>
      fm (members arr idx t) \<noteq> seeds ! t"
      using v by (auto split: if_splits)
    then show mv using m t by blast
  qed
  then show ?thesis using a p l v by blast
qed

lemma lloyd_pass_unmoved:
  assumes "length seeds = n" "0 < n" "lloyd_pass fm arr n seeds = Inr (ns, mv)"
  shows "mv = (ns \<noteq> seeds)" and "length ns = n"
  using lloyd_pass_spec[OF assms(1,2), of arr fm] assms(3) by auto

lemma lloyd_loop_ok:
  assumes "length seeds = n" "0 < n"
  shows "\<exists>s. lloyd_loop fm k arr n seeds = Inr s \<and> length s = n"
  using assms
proof (induction k arbitrary: seeds)
  case 0
  then show ?case by simp
next
  case (Suc k)
  from lloyd_pass_spec[OF Suc.prems, of arr fm] obtain ns mv where
    p: "lloyd_pass fm arr n seeds = Inr (ns, mv)" and l: "length ns = n" by blast
  show ?case
  proof (cases mv)
    case True
    then show ?thesis using p Suc.IH[OF l Suc.prems(2)] by simp
  next
    case False
    then show ?thesis using p l by simp
  qed
qed

lemma lloyd_loop_fixed:
  assumes "lloyd_pass fm arr n s = Inr (s, False)"
  shows "lloyd_loop fm j arr n s = Inr s"
  using assms by (cases j) auto

subsection \<open>Seed initialisation and the final partition\<close>

lemma collect_map_ok:
  assumes "\<forall>x\<in>set xs. \<exists>y. f x = Inr y"
  shows "\<exists>ys. collect (map f xs) = Inr ys \<and> length ys = length xs"
  using assms
proof (induction xs)
  case Nil
  then show ?case by simp
next
  case (Cons x xs)
  then obtain y where y: "f x = Inr y" by auto
  from Cons obtain ys where "collect (map f xs) = Inr ys" "length ys = length xs" by auto
  then show ?case using y by simp
qed

lemma probs_range:
  assumes "p \<in> set (probs n)"
  shows "0 \<le> p \<and> p \<le> 1"
proof -
  from assms obtain i where i: "1 \<le> i" "i < n + 1" and p: "p = real i / real (n + 1)"
    by (auto simp: probs_def)
  have "real i \<le> real (n + 1)" using i by simp
  then have "real i / real (n + 1) \<le> 1" by (simp add: divide_le_eq_1)
  then show ?thesis using p by simp
qed

lemma length_probs: "length (probs n) = n"
  by (simp add: probs_def)

lemma quantile_ok:
  assumes "a \<noteq> []" "0 \<le> p" "p \<le> 1"
  shows "\<exists>q. quantile a p = Inr q"
  using assms by (simp add: quantile_def Let_def)

lemma quantile_seeds_ok:
  assumes "arr \<noteq> []"
  shows "\<exists>s. quantile_seeds arr n = Inr s \<and> length s = n"
proof -
  have ne: "sort arr \<noteq> []" using assms by (metis length_sort length_0_conv)
  have "\<forall>p\<in>set (probs n). \<exists>q. quantile (sort arr) p = Inr q"
    using quantile_ok[OF ne] probs_range by blast
  from collect_map_ok[OF this] show ?thesis
    by (simp add: quantile_seeds_def length_probs)
qed

lemma random_seeds_ok:
  assumes "arr \<noteq> []"
  shows "\<exists>s. random_seeds arr n rnd = (Inr s, \<lambda>i. rnd (i + n)) \<and> length s = n"
proof -
  obtain x xs where "arr = x # xs" using assms by (cases arr) auto
  then show ?thesis by (simp add: random_seeds_def)
qed

lemma random_seeds_2_ok:
  assumes "arr \<noteq> []"
  shows "\<exists>s rnd'. random_seeds_2 arr n rnd = (Inr s, rnd') \<and> length s = n"
proof -
  obtain x xs where "arr = x # xs" using assms by (cases arr) auto
  then show ?thesis by (simp add: random_seeds_2_def)
qed

lemma init_ok:
  assumes "arr \<noteq> []"
  shows "\<exists>seeds0 rnd'.
           (if m = ''quantile'' then (quantile_seeds arr n, rnd)
            else random_seeds arr n rnd) = (Inr seeds0, rnd') \<and>
           length seeds0 = n"
  using quantile_seeds_ok[OF assms, of n] random_seeds_ok[OF assms, of n rnd] by auto

lemma init_2_ok:
  assumes "arr \<noteq> []"
  shows "\<exists>seeds0 rnd'.
           (if m = ''quantile'' then (quantile_seeds arr n, rnd)
            else random_seeds_2 arr n rnd) = (Inr seeds0, rnd') \<and>
           length seeds0 = n"
  using quantile_seeds_ok[OF assms, of n] random_seeds_2_ok[OF assms, of n rnd] by auto

lemma np_array_length: "np_array vals = Inr arr \<Longrightarrow> length arr = length vals"
  unfolding np_array_def
proof (induction vals arbitrary: arr)
  case Nil
  then show ?case by simp
next
  case (Cons v vals)
  then show ?case by (auto split: sum.splits)
qed

lemma to_float_error: "to_float v = Inl e \<Longrightarrow> e = OverflowError"
  by (cases v) (auto split: if_splits)

lemma np_array_error: "np_array vals = Inl e \<Longrightarrow> e = OverflowError"
  unfolding np_array_def
proof (induction vals)
  case Nil
  then show ?case by simp
next
  case (Cons v vals)
  then show ?case by (auto split: sum.splits dest: to_float_error)
qed

lemma partition_voronoi_unfold:
  assumes "0 < n_seeds" "vals \<noteq> []" "np_array vals = Inr arr"
    "(if m = ''quantile'' then (quantile_seeds arr (nat n_seeds), rnd)
      else random_seeds arr (nat n_seeds) rnd) = (Inr seeds0, rnd')"
  shows "partition_voronoi fm vals n_seeds it m rnd =
           (relax_and_partition fm vals arr (nat n_seeds) it seeds0, rnd')"
  using assms unfolding partition_voronoi_def Let_def by (simp split: if_splits)

lemma partition_voronoi_2_unfold:
  assumes "0 < n_seeds" "vals \<noteq> []" "np_array vals = Inr arr"
    "(if m = ''quantile'' then (quantile_seeds arr (nat n_seeds), rnd)
      else random_seeds_2 arr (nat n_seeds) rnd) = (Inr seeds0, rnd')"
  shows "partition_voronoi_2 fm vals n_seeds it m rnd =
           (relax_and_partition fm vals arr (nat n_seeds) it seeds0, rnd')"
  using assms unfolding partition_voronoi_2_def Let_def by (simp split: if_splits)

lemma partition_voronoi_overflow:
  assumes "0 < n_seeds" "vals \<noteq> []" "np_array vals = Inl e"
  shows "partition_voronoi fm vals n_seeds it m rnd = (Inl OverflowError, rnd)"
    and "partition_voronoi_2 fm vals n_seeds it m rnd = (Inl OverflowError, rnd)"
  using assms np_array_error[OF assms(3)]
  by (simp_all add: partition_voronoi_def partition_voronoi_2_def)

lemma relax_and_partition_spec:
  assumes "length seeds0 = n" "0 < n" "length vals = length arr"
  shows "\<exists>cl s idx. relax_and_partition fm vals arr n it seeds0 = Inr (cl, s) \<and>
           lloyd_loop fm (nat it) arr n seeds0 = Inr s \<and> length s = n \<and>
           assign arr s = Inr idx \<and> length idx = length arr \<and> length cl = n \<and>
           (\<forall>k<n. cl ! k = members vals idx k) \<and>
           mset (concat cl) = mset vals"
proof -
  from lloyd_loop_ok[OF assms(1,2)] obtain s where
    s: "lloyd_loop fm (nat it) arr n seeds0 = Inr s" and ls: "length s = n" by blast
  have ne: "s \<noteq> []" using ls assms(2) by auto
  define idx where "idx = map (\<lambda>a. argmin (distances s a)) arr"
  have a: "assign arr s = Inr idx" using ne by (simp add: assign_def idx_def)
  have li: "length idx = length arr" by (simp add: idx_def)
  have bound: "\<forall>p\<in>set (zip vals idx). snd p < length (replicate n ([]::pynum list))"
  proof
    fix p assume "p \<in> set (zip vals idx)"
    then obtain j where j: "j < length idx" and p: "snd p = idx ! j"
      by (auto simp: set_zip)
    have "idx ! j < length s" using assign_bound[OF a] j li by simp
    then show "snd p < length (replicate n ([]::pynum list))" using p ls by simp
  qed
  from build_clusters_ok[OF bound] obtain cl where
    b: "build_clusters (zip vals idx) (replicate n []) = Inr cl" and
    lc: "length cl = n" and
    c: "\<forall>k<n. cl ! k = replicate n [] ! k @ map fst (filter (\<lambda>(v, i). i = k) (zip vals idx))"
    by auto
  have c': "\<forall>k<n. cl ! k = members vals idx k" using c by (simp add: members_def)
  have "mset (concat cl) = mset (concat (replicate n ([]::pynum list))) + mset (map fst (zip vals idx))"
    by (rule build_clusters_mset[OF b])
  moreover have "map fst (zip vals idx) = vals" using li assms(3) by (simp add: map_fst_zip)
  moreover have "concat (replicate n ([]::pynum list)) = []" by (induction n) auto
  ultimately have ms: "mset (concat cl) = mset vals" by simp
  have "relax_and_partition fm vals arr n it seeds0 = Inr (cl, s)"
    using s a b by (simp add: relax_and_partition_def)
  then show ?thesis using s ls a li lc c' ms by blast
qed

subsection \<open>The function as a whole\<close>

lemma partition_voronoi_spec:
  assumes "vals \<noteq> []" "0 < n_seeds" "np_array vals = Inr arr"
  shows "\<exists>cl s idx seeds0 rnd'.
           partition_voronoi fm vals n_seeds it m rnd = (Inr (cl, s), rnd') \<and>
           lloyd_loop fm (nat it) arr (nat n_seeds) seeds0 = Inr s \<and>
           length seeds0 = nat n_seeds \<and> length s = nat n_seeds \<and>
           assign arr s = Inr idx \<and> length idx = length vals \<and>
           length cl = nat n_seeds \<and>
           (\<forall>k<nat n_seeds. cl ! k = members vals idx k) \<and>
           mset (concat cl) = mset vals"
proof -
  have la: "length arr = length vals" by (rule np_array_length[OF assms(3)])
  then have ne: "arr \<noteq> []" using assms(1) by auto
  from init_ok[OF ne, of m "nat n_seeds" rnd] obtain seeds0 rnd' where
    i: "(if m = ''quantile'' then (quantile_seeds arr (nat n_seeds), rnd)
          else random_seeds arr (nat n_seeds) rnd) = (Inr seeds0, rnd')" and
    l: "length seeds0 = nat n_seeds" by blast
  have n: "0 < nat n_seeds" using assms(2) by simp
  have lv: "length vals = length arr" using la by simp
  from relax_and_partition_spec[OF l n lv, of fm it] obtain cl s idx where
    "relax_and_partition fm vals arr (nat n_seeds) it seeds0 = Inr (cl, s)"
    "lloyd_loop fm (nat it) arr (nat n_seeds) seeds0 = Inr s"
    "length s = nat n_seeds" "assign arr s = Inr idx"
    "length idx = length arr" "length cl = nat n_seeds"
    "\<forall>k<nat n_seeds. cl ! k = members vals idx k" "mset (concat cl) = mset vals"
    by blast
  then show ?thesis
    using partition_voronoi_unfold[OF assms(2,1,3) i, of fm it] l la by auto
qed

lemma partition_voronoi_2_spec:
  assumes "vals \<noteq> []" "0 < n_seeds" "np_array vals = Inr arr"
  shows "\<exists>cl s idx seeds0 rnd'.
           partition_voronoi_2 fm vals n_seeds it m rnd = (Inr (cl, s), rnd') \<and>
           lloyd_loop fm (nat it) arr (nat n_seeds) seeds0 = Inr s \<and>
           length seeds0 = nat n_seeds \<and> length s = nat n_seeds \<and>
           assign arr s = Inr idx \<and> length idx = length vals \<and>
           length cl = nat n_seeds \<and>
           (\<forall>k<nat n_seeds. cl ! k = members vals idx k) \<and>
           mset (concat cl) = mset vals"
proof -
  have la: "length arr = length vals" by (rule np_array_length[OF assms(3)])
  then have ne: "arr \<noteq> []" using assms(1) by auto
  from init_2_ok[OF ne, of m "nat n_seeds" rnd] obtain seeds0 rnd' where
    i: "(if m = ''quantile'' then (quantile_seeds arr (nat n_seeds), rnd)
          else random_seeds_2 arr (nat n_seeds) rnd) = (Inr seeds0, rnd')" and
    l: "length seeds0 = nat n_seeds" by blast
  have n: "0 < nat n_seeds" using assms(2) by simp
  have lv: "length vals = length arr" using la by simp
  from relax_and_partition_spec[OF l n lv, of fm it] obtain cl s idx where
    "relax_and_partition fm vals arr (nat n_seeds) it seeds0 = Inr (cl, s)"
    "lloyd_loop fm (nat it) arr (nat n_seeds) seeds0 = Inr s"
    "length s = nat n_seeds" "assign arr s = Inr idx"
    "length idx = length arr" "length cl = nat n_seeds"
    "\<forall>k<nat n_seeds. cl ! k = members vals idx k" "mset (concat cl) = mset vals"
    by blast
  then show ?thesis
    using partition_voronoi_2_unfold[OF assms(2,1,3) i, of fm it] l la by auto
qed

lemma sum_lengths_concat: "sum_list (map length cl) = size (mset (concat cl))"
  by (simp add: length_concat)

lemma partition_voronoi_empty:
  "0 < n_seeds \<Longrightarrow>
     partition_voronoi fm [] n_seeds it m rnd = (Inr (replicate (nat n_seeds) [], []), rnd)"
  by (simp add: partition_voronoi_def)

lemma partition_voronoi_2_empty:
  "0 < n_seeds \<Longrightarrow>
     partition_voronoi_2 fm [] n_seeds it m rnd = (Inr (replicate (nat n_seeds) [], []), rnd)"
  by (simp add: partition_voronoi_2_def)

lemma partition_voronoi_returns:
  assumes "0 < n_seeds" "np_array vals = Inr arr"
  shows "\<exists>cl s rnd'. partition_voronoi fm vals n_seeds it m rnd = (Inr (cl, s), rnd') \<and>
           length cl = nat n_seeds"
proof (cases "vals = []")
  case True
  then show ?thesis using partition_voronoi_empty[OF assms(1)] by simp
next
  case False
  from partition_voronoi_spec[OF False assms, of fm it m rnd] show ?thesis by blast
qed

lemma partition_voronoi_2_returns:
  assumes "0 < n_seeds" "np_array vals = Inr arr"
  shows "\<exists>cl s rnd'. partition_voronoi_2 fm vals n_seeds it m rnd = (Inr (cl, s), rnd') \<and>
           length cl = nat n_seeds"
proof (cases "vals = []")
  case True
  then show ?thesis using partition_voronoi_2_empty[OF assms(1)] by simp
next
  case False
  from partition_voronoi_2_spec[OF False assms, of fm it m rnd] show ?thesis by blast
qed

lemma partition_voronoi_raises:
  "n_seeds \<le> 0 \<Longrightarrow>
     partition_voronoi fm vals n_seeds it m rnd = (Inl (ValueError ''n_seeds must be >= 1''), rnd)"
  by (simp add: partition_voronoi_def)

lemma partition_voronoi_2_raises:
  "n_seeds \<le> 0 \<Longrightarrow>
     partition_voronoi_2 fm vals n_seeds it m rnd = (Inl (ValueError ''n_seeds must be >= 1''), rnd)"
  by (simp add: partition_voronoi_2_def)

text \<open>
  Claim C1, amended. For a non-empty list of values that \<open>np.array\<close> converts to floats
  (it holds no \<open>int\<close> beyond the range of a double) and \<open>n_seeds \<ge> 1\<close>, whatever the
  iteration budget, the initialisation method, the random draws and the rounding of the
  means, both versions return exactly \<open>n_seeds\<close> clusters, the lengths of the clusters
  add up to the length of the input, and the clusters together hold the input values as a
  multiset: no value is lost or duplicated.
\<close>

theorem partition_voronoi_is_partition:
  assumes "vals \<noteq> []" "1 \<le> n_seeds" "np_array vals = Inr arr"
  shows "(\<exists>cl s rnd'. partition_voronoi fm vals n_seeds it m rnd = (Inr (cl, s), rnd') \<and>
            length cl = nat n_seeds \<and> sum_list (map length cl) = length vals \<and>
            mset (concat cl) = mset vals) \<and>
         (\<exists>cl s rnd'. partition_voronoi_2 fm vals n_seeds it m rnd = (Inr (cl, s), rnd') \<and>
            length cl = nat n_seeds \<and> sum_list (map length cl) = length vals \<and>
            mset (concat cl) = mset vals)"
proof -
  have n: "0 < n_seeds" using assms(2) by simp
  from partition_voronoi_spec[OF assms(1) n assms(3), of fm it m rnd] obtain cl s rnd' where
    a: "partition_voronoi fm vals n_seeds it m rnd = (Inr (cl, s), rnd')"
       "length cl = nat n_seeds" "mset (concat cl) = mset vals" by blast
  have a': "sum_list (map length cl) = length vals"
    using a(3) by (simp add: sum_lengths_concat)
  from partition_voronoi_2_spec[OF assms(1) n assms(3), of fm it m rnd] obtain cl2 s2 rnd2 where
    b: "partition_voronoi_2 fm vals n_seeds it m rnd = (Inr (cl2, s2), rnd2)"
       "length cl2 = nat n_seeds" "mset (concat cl2) = mset vals" by blast
  have b': "sum_list (map length cl2) = length vals"
    using b(3) by (simp add: sum_lengths_concat)
  show ?thesis using a a' b b' by blast
qed

theorem partition_voronoi_is_partition_witness:
  "[PInt 1, PInt 2, PFloat 3] \<noteq> [] \<and> (1::int) \<le> 5 \<and>
   np_array [PInt 1, PInt 2, PFloat 3] = Inr [1, 2, 3] \<and>
   (\<exists>cl s rnd'. partition_voronoi mean_f64 [PInt 1, PInt 2, PFloat 3] 5 2 ''random'' (\<lambda>i. 1 / 2) =
        (Inr (cl, s), rnd') \<and>
      length cl = nat 5 \<and> sum_list (map length cl) = length [PInt 1, PInt 2, PFloat 3] \<and>
      mset (concat cl) = mset [PInt 1, PInt 2, PFloat 3]) \<and>
   (\<exists>cl s rnd'. partition_voronoi_2 mean_f64 [PInt 1, PInt 2, PFloat 3] 5 2 ''random'' (\<lambda>i. 1 / 2) =
        (Inr (cl, s), rnd') \<and>
      length cl = nat 5 \<and> sum_list (map length cl) = length [PInt 1, PInt 2, PFloat 3] \<and>
      mset (concat cl) = mset [PInt 1, PInt 2, PFloat 3])"
proof -
  have h1: "[PInt 1, PInt 2, PFloat 3] \<noteq> []" by simp
  have h2: "(1::int) \<le> 5" by simp
  have h3: "np_array [PInt 1, PInt 2, PFloat 3] = Inr [1, 2, 3]" by (simp add: np_array_def)
  show ?thesis
    using h1 h2 h3
      partition_voronoi_is_partition[OF h1 h2 h3, of mean_f64 2 "''random''" "\<lambda>i. 1 / 2"]
    by blast
qed

text \<open>
  The claim as it is written fails for a list that holds an \<open>int\<close> beyond the range of a
  double: for \<open>values = [2**1024]\<close> and \<open>n_seeds = 1\<close> the conversion of line 26 raises
  \<open>OverflowError\<close> and no cluster is returned.
\<close>

theorem partition_voronoi_is_partition_counterexample:
  "[PInt (2 ^ 1024)] \<noteq> [] \<and> (1::int) \<le> 1 \<and>
   fst (partition_voronoi mean_f64 [PInt (2 ^ 1024)] 1 0 ''random'' (\<lambda>i. 1 / 2)) = Inl OverflowError \<and>
   fst (partition_voronoi_2 mean_f64 [PInt (2 ^ 1024)] 1 0 ''random'' (\<lambda>i. 1 / 2)) = Inl OverflowError"
  by (simp add: partition_voronoi_def partition_voronoi_2_def np_array_def)

text \<open>
  Claim C5, amended. Both versions raise the invalid-argument error
  \<open>ValueError("n_seeds must be >= 1")\<close> if and only if \<open>n_seeds \<le> 0\<close>; then they raise it
  whatever the values are and leave the random source as they found it. For
  \<open>n_seeds \<ge> 1\<close> and values that \<open>np.array\<close> converts to floats the call returns
  \<open>n_seeds\<close> clusters and raises nothing, however far \<open>n_seeds\<close> exceeds the number of
  values. The only other error is the \<open>OverflowError\<close> of the conversion of line 26, for
  \<open>n_seeds \<ge> 1\<close> and a non-empty list that holds an \<open>int\<close> beyond the range of a
  double; it too leaves the random source untouched.
\<close>

theorem partition_voronoi_raises_iff:
  "(fst (partition_voronoi fm vals n_seeds it m rnd) = Inl (ValueError ''n_seeds must be >= 1'')
      \<longleftrightarrow> n_seeds \<le> 0) \<and>
   (n_seeds \<le> 0 \<longrightarrow>
      partition_voronoi fm vals n_seeds it m rnd = (Inl (ValueError ''n_seeds must be >= 1''), rnd)) \<and>
   (1 \<le> n_seeds \<and> (\<exists>arr. np_array vals = Inr arr) \<longrightarrow>
      (\<exists>cl s rnd'. partition_voronoi fm vals n_seeds it m rnd = (Inr (cl, s), rnd') \<and>
         length cl = nat n_seeds)) \<and>
   (1 \<le> n_seeds \<and> vals \<noteq> [] \<and> (\<exists>e. np_array vals = Inl e) \<longrightarrow>
      partition_voronoi fm vals n_seeds it m rnd = (Inl OverflowError, rnd)) \<and>
   ((\<exists>e. fst (partition_voronoi fm vals n_seeds it m rnd) = Inl e) \<longleftrightarrow>
      n_seeds \<le> 0 \<or> (vals \<noteq> [] \<and> (\<exists>e. np_array vals = Inl e))) \<and>
   (fst (partition_voronoi_2 fm vals n_seeds it m rnd) = Inl (ValueError ''n_seeds must be >= 1'')
      \<longleftrightarrow> n_seeds \<le> 0) \<and>
   (n_seeds \<le> 0 \<longrightarrow>
      partition_voronoi_2 fm vals n_seeds it m rnd = (Inl (ValueError ''n_seeds must be >= 1''), rnd)) \<and>
   (1 \<le> n_seeds \<and> (\<exists>arr. np_array vals = Inr arr) \<longrightarrow>
      (\<exists>cl s rnd'. partition_voronoi_2 fm vals n_seeds it m rnd = (Inr (cl, s), rnd') \<and>
         length cl = nat n_seeds)) \<and>
   (1 \<le> n_seeds \<and> vals \<noteq> [] \<and> (\<exists>e. np_array vals = Inl e) \<longrightarrow>
      partition_voronoi_2 fm vals n_seeds it m rnd = (Inl OverflowError, rnd)) \<and>
   ((\<exists>e. fst (partition_voronoi_2 fm vals n_seeds it m rnd) = Inl e) \<longleftrightarrow>
      n_seeds \<le> 0 \<or> (vals \<noteq> [] \<and> (\<exists>e. np_array vals = Inl e)))"
proof (cases "n_seeds \<le> 0")
  case True
  then show ?thesis
    using partition_voronoi_raises[OF True, of fm vals it m rnd]
      partition_voronoi_2_raises[OF True, of fm vals it m rnd]
    by simp
next
  case False
  then have n: "0 < n_seeds" by simp
  show ?thesis
  proof (cases "np_array vals")
    case (Inr arr)
    from partition_voronoi_returns[OF n Inr, of fm it m rnd] obtain cl s rnd' where
      a: "partition_voronoi fm vals n_seeds it m rnd = (Inr (cl, s), rnd')" "length cl = nat n_seeds"
      by blast
    from partition_voronoi_2_returns[OF n Inr, of fm it m rnd] obtain cl2 s2 rnd2 where
      b: "partition_voronoi_2 fm vals n_seeds it m rnd = (Inr (cl2, s2), rnd2)" "length cl2 = nat n_seeds"
      by blast
    show ?thesis using False Inr a b by simp
  next
    case (Inl e)
    show ?thesis
    proof (cases "vals = []")
      case True
      then show ?thesis using Inl by (simp add: np_array_def)
    next
      case ne: False
      have a: "partition_voronoi fm vals n_seeds it m rnd = (Inl OverflowError, rnd)"
        by (rule partition_voronoi_overflow(1)[OF n ne Inl])
      have b: "partition_voronoi_2 fm vals n_seeds it m rnd = (Inl OverflowError, rnd)"
        by (rule partition_voronoi_overflow(2)[OF n ne Inl])
      show ?thesis using False ne Inl a b by simp
    qed
  qed
qed

theorem partition_voronoi_raises_iff_witness:
  "((0::int) \<le> 0 \<and>
    partition_voronoi mean_f64 [PInt 1, PInt 2, PInt 3] 0 4 ''quantile'' (\<lambda>i. 1 / 3) =
      (Inl (ValueError ''n_seeds must be >= 1''), \<lambda>i. 1 / 3) \<and>
    partition_voronoi_2 mean_f64 [PInt 1, PInt 2, PInt 3] 0 4 ''quantile'' (\<lambda>i. 1 / 3) =
      (Inl (ValueError ''n_seeds must be >= 1''), \<lambda>i. 1 / 3)) \<and>
   ((1::int) \<le> 5 \<and> np_array [PInt 1, PInt 2, PInt 3] = Inr [1, 2, 3] \<and>
    (\<exists>cl s rnd'. partition_voronoi mean_f64 [PInt 1, PInt 2, PInt 3] 5 4 ''quantile'' (\<lambda>i. 1 / 3) =
        (Inr (cl, s), rnd') \<and> length cl = nat 5) \<and>
    (\<exists>cl s rnd'. partition_voronoi_2 mean_f64 [PInt 1, PInt 2, PInt 3] 5 4 ''quantile'' (\<lambda>i. 1 / 3) =
        (Inr (cl, s), rnd') \<and> length cl = nat 5)) \<and>
   ((1::int) \<le> 2 \<and> [PInt 7, PInt (- (2 ^ 1024))] \<noteq> [] \<and>
    np_array [PInt 7, PInt (- (2 ^ 1024))] = Inl OverflowError \<and>
    partition_voronoi mean_f64 [PInt 7, PInt (- (2 ^ 1024))] 2 4 ''quantile'' (\<lambda>i. 1 / 3) =
      (Inl OverflowError, \<lambda>i. 1 / 3) \<and>
    partition_voronoi_2 mean_f64 [PInt 7, PInt (- (2 ^ 1024))] 2 4 ''quantile'' (\<lambda>i. 1 / 3) =
      (Inl OverflowError, \<lambda>i. 1 / 3))"
proof -
  have h0: "(0::int) \<le> 0" by simp
  have h1: "(1::int) \<le> 5" by simp
  have h2: "np_array [PInt 1, PInt 2, PInt 3] = Inr [1, 2, 3]" by (simp add: np_array_def)
  have h3: "(1::int) \<le> 2" by simp
  have h4: "[PInt 7, PInt (- (2 ^ 1024))] \<noteq> []" by simp
  have h5: "np_array [PInt 7, PInt (- (2 ^ 1024))] = Inl OverflowError" by (simp add: np_array_def)
  have w0: "partition_voronoi mean_f64 [PInt 1, PInt 2, PInt 3] 0 4 ''quantile'' (\<lambda>i. 1 / 3) =
      (Inl (ValueError ''n_seeds must be >= 1''), \<lambda>i. 1 / 3) \<and>
    partition_voronoi_2 mean_f64 [PInt 1, PInt 2, PInt 3] 0 4 ''quantile'' (\<lambda>i. 1 / 3) =
      (Inl (ValueError ''n_seeds must be >= 1''), \<lambda>i. 1 / 3)"
    using h0
      partition_voronoi_raises_iff[of mean_f64 "[PInt 1, PInt 2, PInt 3]" 0 4 "''quantile''" "\<lambda>i. 1 / 3"]
    by blast
  have w1: "(\<exists>cl s rnd'. partition_voronoi mean_f64 [PInt 1, PInt 2, PInt 3] 5 4 ''quantile'' (\<lambda>i. 1 / 3) =
        (Inr (cl, s), rnd') \<and> length cl = nat 5) \<and>
    (\<exists>cl s rnd'. partition_voronoi_2 mean_f64 [PInt 1, PInt 2, PInt 3] 5 4 ''quantile'' (\<lambda>i. 1 / 3) =
        (Inr (cl, s), rnd') \<and> length cl = nat 5)"
    using h1 h2
      partition_voronoi_raises_iff[of mean_f64 "[PInt 1, PInt 2, PInt 3]" 5 4 "''quantile''" "\<lambda>i. 1 / 3"]
    by blast
  have w2: "partition_voronoi mean_f64 [PInt 7, PInt (- (2 ^ 1024))] 2 4 ''quantile'' (\<lambda>i. 1 / 3) =
      (Inl OverflowError, \<lambda>i. 1 / 3) \<and>
    partition_voronoi_2 mean_f64 [PInt 7, PInt (- (2 ^ 1024))] 2 4 ''quantile'' (\<lambda>i. 1 / 3) =
      (Inl OverflowError, \<lambda>i. 1 / 3)"
    using h3 h4 h5
      partition_voronoi_raises_iff[of mean_f64 "[PInt 7, PInt (- (2 ^ 1024))]" 2 4 "''quantile''" "\<lambda>i. 1 / 3"]
    by blast
  show ?thesis
    using h0 h1 h2 h3 h4 h5 w0 w1 w2 by (intro conjI) blast+
qed

text \<open>
  The claim as it is written fails where it promises a result for every list of values
  and \<open>n_seeds \<ge> 1\<close>: for \<open>values = [3, 2**1024]\<close> and \<open>n_seeds = 1\<close> both versions raise
  \<open>OverflowError\<close>, an error other than the invalid-argument error, although \<open>n_seeds\<close>
  is positive.
\<close>

theorem partition_voronoi_raises_iff_counterexample:
  "\<not> (1::int) \<le> 0 \<and>
   fst (partition_voronoi mean_f64 [PInt 3, PInt (2 ^ 1024)] 1 0 ''quantile'' (\<lambda>i. 1 / 2)) =
     Inl OverflowError \<and>
   fst (partition_voronoi_2 mean_f64 [PInt 3, PInt (2 ^ 1024)] 1 0 ''quantile'' (\<lambda>i. 1 / 2)) =
     Inl OverflowError"
  by (simp add: partition_voronoi_def partition_voronoi_2_def np_array_def)

text \<open>
  Claim C6. For \<open>n_seeds \<ge> 1\<close> and an empty list of values, both versions return
  \<open>n_seeds\<close> empty clusters and an empty seed sequence, whatever the iteration budget and
  the initialisation method. Nothing is drawn from the random source: neither
  initialisation nor relaxation takes place.
\<close>

theorem partition_voronoi_empty_values:
  assumes "1 \<le> n_seeds"
  shows "partition_voronoi fm [] n_seeds it m rnd = (Inr (replicate (nat n_seeds) [], []), rnd) \<and>
         partition_voronoi_2 fm [] n_seeds it m rnd = (Inr (replicate (nat n_seeds) [], []), rnd)"
proof -
  have n: "0 < n_seeds" using assms by simp
  show ?thesis
    using partition_voronoi_empty[OF n, of fm it m rnd]
      partition_voronoi_2_empty[OF n, of fm it m rnd]
    by simp
qed

theorem partition_voronoi_empty_values_witness:
  "(1::int) \<le> 3 \<and>
   partition_voronoi mean_f64 [] 3 7 ''quantile'' (\<lambda>i. 1 / 4) = (Inr ([[], [], []], []), \<lambda>i. 1 / 4) \<and>
   partition_voronoi_2 mean_f64 [] 3 7 ''quantile'' (\<lambda>i. 1 / 4) = (Inr ([[], [], []], []), \<lambda>i. 1 / 4)"
proof -
  have h: "(1::int) \<le> 3" by simp
  have r: "replicate (nat 3) ([]::pynum list) = [[], [], []]" by (simp add: numeral_3_eq_3)
  show ?thesis
    using h r partition_voronoi_empty_values[OF h, of mean_f64 7 "''quantile''" "\<lambda>i. 1 / 4"]
    by simp
qed

text \<open>
  Claim C9. An initialisation method that is not \<open>"quantile"\<close> is treated as \<open>"random"\<close>:
  with the same random draws the call returns or raises what it returns or raises for
  \<open>"random"\<close>, clusters, seeds and the random source left behind; and for \<open>n_seeds \<ge> 1\<close>
  and values that \<open>np.array\<close> converts to floats it raises nothing.
\<close>

theorem partition_voronoi_init_fallback:
  assumes "m \<noteq> ''quantile''"
  shows "partition_voronoi fm vals n_seeds it m rnd =
           partition_voronoi fm vals n_seeds it ''random'' rnd \<and>
         partition_voronoi_2 fm vals n_seeds it m rnd =
           partition_voronoi_2 fm vals n_seeds it ''random'' rnd \<and>
         (1 \<le> n_seeds \<and> (\<exists>arr. np_array vals = Inr arr) \<longrightarrow>
            (\<exists>r. fst (partition_voronoi fm vals n_seeds it m rnd) = Inr r) \<and>
            (\<exists>r. fst (partition_voronoi_2 fm vals n_seeds it m rnd) = Inr r))"
proof -
  have a: "partition_voronoi fm vals n_seeds it m rnd =
           partition_voronoi fm vals n_seeds it ''random'' rnd"
    using assms by (simp add: partition_voronoi_def split: sum.splits)
  have b: "partition_voronoi_2 fm vals n_seeds it m rnd =
           partition_voronoi_2 fm vals n_seeds it ''random'' rnd"
    using assms by (simp add: partition_voronoi_2_def split: sum.splits)
  have c: "1 \<le> n_seeds \<and> (\<exists>arr. np_array vals = Inr arr) \<longrightarrow>
            (\<exists>r. fst (partition_voronoi fm vals n_seeds it m rnd) = Inr r) \<and>
            (\<exists>r. fst (partition_voronoi_2 fm vals n_seeds it m rnd) = Inr r)"
  proof
    assume h: "1 \<le> n_seeds \<and> (\<exists>arr. np_array vals = Inr arr)"
    then have n: "0 < n_seeds" by simp
    from h obtain arr where arr: "np_array vals = Inr arr" by blast
    from partition_voronoi_returns[OF n arr, of fm it m rnd]
      partition_voronoi_2_returns[OF n arr, of fm it m rnd]
    show "(\<exists>r. fst (partition_voronoi fm vals n_seeds it m rnd) = Inr r) \<and>
            (\<exists>r. fst (partition_voronoi_2 fm vals n_seeds it m rnd) = Inr r)"
      by fastforce
  qed
  show ?thesis using a b c by blast
qed

theorem partition_voronoi_init_fallback_witness:
  "''median'' \<noteq> ''quantile'' \<and> (1::int) \<le> 2 \<and>
   np_array [PInt 4, PFloat 1, PInt 9] = Inr [4, 1, 9] \<and>
   partition_voronoi mean_f64 [PInt 4, PFloat 1, PInt 9] 2 3 ''median'' (\<lambda>i. 1 / (real i + 2)) =
     partition_voronoi mean_f64 [PInt 4, PFloat 1, PInt 9] 2 3 ''random'' (\<lambda>i. 1 / (real i + 2)) \<and>
   partition_voronoi_2 mean_f64 [PInt 4, PFloat 1, PInt 9] 2 3 ''median'' (\<lambda>i. 1 / (real i + 2)) =
     partition_voronoi_2 mean_f64 [PInt 4, PFloat 1, PInt 9] 2 3 ''random'' (\<lambda>i. 1 / (real i + 2)) \<and>
   (\<exists>r. fst (partition_voronoi mean_f64 [PInt 4, PFloat 1, PInt 9] 2 3 ''median'' (\<lambda>i. 1 / (real i + 2))) = Inr r) \<and>
   (\<exists>r. fst (partition_voronoi_2 mean_f64 [PInt 4, PFloat 1, PInt 9] 2 3 ''median'' (\<lambda>i. 1 / (real i + 2))) = Inr r)"
proof -
  have h: "''median'' \<noteq> ''quantile''" by simp
  have h2: "(1::int) \<le> 2" by simp
  have h3: "np_array [PInt 4, PFloat 1, PInt 9] = Inr [4, 1, 9]" by (simp add: np_array_def)
  show ?thesis
    using h h2 h3
      partition_voronoi_init_fallback[OF h, of mean_f64 "[PInt 4, PFloat 1, PInt 9]" 2 3 "\<lambda>i. 1 / (real i + 2)"]
    by blast
qed

text \<open>
  Claim C10. A negative \<open>lloyd_iters\<close> makes the relaxation loop run zero times: the call
  returns or raises what it returns or raises for \<open>lloyd_iters = 0\<close>, and for
  \<open>n_seeds \<ge> 1\<close> and values that \<open>np.array\<close> converts to floats it raises nothing.
\<close>

theorem partition_voronoi_negative_iters:
  assumes "1 \<le> n_seeds" "it < 0"
  shows "partition_voronoi fm vals n_seeds it m rnd = partition_voronoi fm vals n_seeds 0 m rnd \<and>
         partition_voronoi_2 fm vals n_seeds it m rnd = partition_voronoi_2 fm vals n_seeds 0 m rnd \<and>
         ((\<exists>arr. np_array vals = Inr arr) \<longrightarrow>
            (\<exists>r. fst (partition_voronoi fm vals n_seeds it m rnd) = Inr r) \<and>
            (\<exists>r. fst (partition_voronoi_2 fm vals n_seeds it m rnd) = Inr r)) \<and>
         passes_run fm (nat it) arr (nat n_seeds) seeds = 0"
proof -
  have z: "nat it = 0" using assms(2) by simp
  have r: "\<And>a seeds0. relax_and_partition fm vals a (nat n_seeds) it seeds0 =
             relax_and_partition fm vals a (nat n_seeds) 0 seeds0"
    using z by (simp add: relax_and_partition_def)
  have a: "partition_voronoi fm vals n_seeds it m rnd = partition_voronoi fm vals n_seeds 0 m rnd"
    unfolding partition_voronoi_def Let_def r ..
  have b: "partition_voronoi_2 fm vals n_seeds it m rnd = partition_voronoi_2 fm vals n_seeds 0 m rnd"
    unfolding partition_voronoi_2_def Let_def r ..
  have n: "0 < n_seeds" using assms(1) by simp
  have c: "(\<exists>arr. np_array vals = Inr arr) \<longrightarrow>
            (\<exists>r. fst (partition_voronoi fm vals n_seeds it m rnd) = Inr r) \<and>
            (\<exists>r. fst (partition_voronoi_2 fm vals n_seeds it m rnd) = Inr r)"
  proof
    assume "\<exists>arr. np_array vals = Inr arr"
    then obtain a where arr: "np_array vals = Inr a" by blast
    from partition_voronoi_returns[OF n arr, of fm it m rnd]
      partition_voronoi_2_returns[OF n arr, of fm it m rnd]
    show "(\<exists>r. fst (partition_voronoi fm vals n_seeds it m rnd) = Inr r) \<and>
            (\<exists>r. fst (partition_voronoi_2 fm vals n_seeds it m rnd) = Inr r)"
      by fastforce
  qed
  show ?thesis using a b c z by simp
qed

theorem partition_voronoi_negative_iters_witness:
  "(1::int) \<le> 2 \<and> (-3::int) < 0 \<and>
   np_array [PInt 4, PFloat 1, PInt 9] = Inr [4, 1, 9] \<and>
   partition_voronoi mean_f64 [PInt 4, PFloat 1, PInt 9] 2 (-3) ''quantile'' (\<lambda>i. 1 / 2) =
     partition_voronoi mean_f64 [PInt 4, PFloat 1, PInt 9] 2 0 ''quantile'' (\<lambda>i. 1 / 2) \<and>
   partition_voronoi_2 mean_f64 [PInt 4, PFloat 1, PInt 9] 2 (-3) ''quantile'' (\<lambda>i. 1 / 2) =
     partition_voronoi_2 mean_f64 [PInt 4, PFloat 1, PInt 9] 2 0 ''quantile'' (\<lambda>i. 1 / 2) \<and>
   (\<exists>r. fst (partition_voronoi mean_f64 [PInt 4, PFloat 1, PInt 9] 2 (-3) ''quantile'' (\<lambda>i. 1 / 2)) = Inr r) \<and>
   (\<exists>r. fst (partition_voronoi_2 mean_f64 [PInt 4, PFloat 1, PInt 9] 2 (-3) ''quantile'' (\<lambda>i. 1 / 2)) = Inr r) \<and>
   passes_run mean_f64 (nat (-3)) [4, 1, 9] (nat 2) [1, 9] = 0"
proof -
  have h: "(1::int) \<le> 2" by simp
  have h2: "(-3::int) < 0" by simp
  have h3: "np_array [PInt 4, PFloat 1, PInt 9] = Inr [4, 1, 9]" by (simp add: np_array_def)
  show ?thesis
    using h h2 h3
      partition_voronoi_negative_iters[OF h h2, of mean_f64 "[PInt 4, PFloat 1, PInt 9]" "''quantile''" "\<lambda>i. 1 / 2" "[4, 1, 9]" "[1, 9]"]
    by blast
qed

subsection \<open>Assignment rule, recentering and order of the clusters\<close>

lemma subseq_members: "subseq (members xs idx k) xs"
proof (induction xs arbitrary: idx)
  case Nil
  then show ?case by (simp add: members_def)
next
  case (Cons x xs)
  show ?case
  proof (cases idx)
    case Nil
    then show ?thesis by (simp add: members_def)
  next
    case (Cons i ks)
    have "subseq (members xs ks k) xs" by (rule Cons.IH)
    then show ?thesis using Cons by (auto simp: members_def)
  qed
qed

lemma assign_nearest:
  assumes "assign arr seeds = Inr idx" "j < length arr"
  shows "idx ! j < length seeds \<and>
         (\<forall>t<length seeds. \<bar>arr ! j - seeds ! (idx ! j)\<bar> \<le> \<bar>arr ! j - seeds ! t\<bar>) \<and>
         (\<forall>t<idx ! j. \<bar>arr ! j - seeds ! (idx ! j)\<bar> < \<bar>arr ! j - seeds ! t\<bar>)"
proof -
  from assms(1) have sne: "seeds \<noteq> []" and idx: "idx = map (\<lambda>a. argmin (distances seeds a)) arr"
    by (auto simp: assign_def split: if_splits)
  let ?d = "distances seeds (arr ! j)"
  have ij: "idx ! j = argmin ?d" using assms(2) by (simp add: idx)
  have ne: "?d \<noteq> []" using sne by (simp add: distances_def)
  have ld: "length ?d = length seeds" by (simp add: distances_def)
  from argmin_first_min[OF ne] have
    f1: "argmin ?d < length seeds" and
    f2: "\<forall>t<length seeds. ?d ! argmin ?d \<le> ?d ! t" and
    f3: "\<forall>t<argmin ?d. ?d ! argmin ?d < ?d ! t"
    using ld by auto
  have nth: "\<And>t. t < length seeds \<Longrightarrow> ?d ! t = \<bar>arr ! j - seeds ! t\<bar>"
    by (simp add: distances_def)
  have g2: "\<forall>t<length seeds. \<bar>arr ! j - seeds ! (idx ! j)\<bar> \<le> \<bar>arr ! j - seeds ! t\<bar>"
    using f1 f2 nth ij by auto
  have g3: "\<forall>t<idx ! j. \<bar>arr ! j - seeds ! (idx ! j)\<bar> < \<bar>arr ! j - seeds ! t\<bar>"
  proof (intro allI impI)
    fix t assume t: "t < idx ! j"
    then have tl: "t < length seeds" using f1 ij by simp
    have "?d ! argmin ?d < ?d ! t" using f3 t ij by simp
    then show "\<bar>arr ! j - seeds ! (idx ! j)\<bar> < \<bar>arr ! j - seeds ! t\<bar>"
      using nth[OF tl] nth[OF f1] ij by simp
  qed
  show ?thesis using f1 ij g2 g3 by simp
qed

lemma partition_voronoi_final:
  assumes "fst (partition_voronoi fm vals n_seeds it m rnd) = Inr (cl, s) \<or>
           fst (partition_voronoi_2 fm vals n_seeds it m rnd) = Inr (cl, s)"
    and "vals \<noteq> []"
  shows "\<exists>arr idx. np_array vals = Inr arr \<and> length arr = length vals \<and>
           assign arr s = Inr idx \<and> length idx = length vals \<and>
           (\<forall>k<length cl. cl ! k = members vals idx k)"
proof -
  have n: "0 < n_seeds"
  proof (rule ccontr)
    assume "\<not> 0 < n_seeds"
    then have "n_seeds \<le> 0" by simp
    then show False
      using assms(1) partition_voronoi_raises[of n_seeds fm vals it m rnd]
        partition_voronoi_2_raises[of n_seeds fm vals it m rnd] by auto
  qed
  show ?thesis
  proof (cases "np_array vals")
    case (Inl e)
    then show ?thesis
      using assms(1) partition_voronoi_overflow[OF n assms(2) Inl, of fm it m rnd] by auto
  next
    case (Inr arr)
    from partition_voronoi_spec[OF assms(2) n Inr, of fm it m rnd] obtain cl1 s1 idx1 rnd1 where
      a: "partition_voronoi fm vals n_seeds it m rnd = (Inr (cl1, s1), rnd1)"
         "assign arr s1 = Inr idx1" "length idx1 = length vals"
         "length cl1 = nat n_seeds" "\<forall>k<nat n_seeds. cl1 ! k = members vals idx1 k"
      by blast
    from partition_voronoi_2_spec[OF assms(2) n Inr, of fm it m rnd] obtain cl2 s2 idx2 rnd2 where
      b: "partition_voronoi_2 fm vals n_seeds it m rnd = (Inr (cl2, s2), rnd2)"
         "assign arr s2 = Inr idx2" "length idx2 = length vals"
         "length cl2 = nat n_seeds" "\<forall>k<nat n_seeds. cl2 ! k = members vals idx2 k"
      by blast
    from assms(1) a b obtain idx where
      c: "assign arr s = Inr idx" "length idx = length vals"
         "\<forall>k<length cl. cl ! k = members vals idx k"
      by auto
    show ?thesis using Inr np_array_length[OF Inr] c by blast
  qed
qed

text \<open>
  Claim C2. The assignment of a relaxation pass (line 43) and the final assignment
  (line 59) give each value the index of a seed at the least absolute distance, and among
  the seeds at that least distance the one with the lowest index: every seed has a
  distance at least that of the chosen one, and every seed with a lower index has a
  strictly greater distance. A pass over a non-empty list of seeds recentres the seeds
  with exactly this assignment; and whenever either version returns clusters for a
  non-empty input, cluster \<open>k\<close> holds the values to which this rule, applied to the
  returned seeds, gives the index \<open>k\<close>.
\<close>

theorem assign_nearest_lowest_index:
  assumes "seeds \<noteq> []"
  shows "(\<exists>idx. assign arr seeds = Inr idx \<and> length idx = length arr \<and>
            (\<forall>j<length arr. idx ! j < length seeds \<and>
               (\<forall>t<length seeds. \<bar>arr ! j - seeds ! (idx ! j)\<bar> \<le> \<bar>arr ! j - seeds ! t\<bar>) \<and>
               (\<forall>t<idx ! j. \<bar>arr ! j - seeds ! (idx ! j)\<bar> < \<bar>arr ! j - seeds ! t\<bar>)) \<and>
            lloyd_pass fm arr n seeds = update_seeds fm arr idx seeds [0..<n] (seeds, False)) \<and>
         ((fst (partition_voronoi fm vals n_seeds it m rnd) = Inr (cl, s) \<or>
            fst (partition_voronoi_2 fm vals n_seeds it m rnd) = Inr (cl, s)) \<and> vals \<noteq> [] \<longrightarrow>
          (\<exists>a idx. np_array vals = Inr a \<and> length a = length vals \<and>
             assign a s = Inr idx \<and> length idx = length vals \<and>
             (\<forall>j<length vals. idx ! j < length s \<and>
                (\<forall>t<length s. \<bar>a ! j - s ! (idx ! j)\<bar> \<le> \<bar>a ! j - s ! t\<bar>) \<and>
                (\<forall>t<idx ! j. \<bar>a ! j - s ! (idx ! j)\<bar> < \<bar>a ! j - s ! t\<bar>)) \<and>
             (\<forall>k<length cl. cl ! k = map fst (filter (\<lambda>(v, i). i = k) (zip vals idx)))))"
proof -
  define idx where "idx = map (\<lambda>a. argmin (distances seeds a)) arr"
  have a: "assign arr seeds = Inr idx" using assms by (simp add: assign_def idx_def)
  have l: "length idx = length arr" by (simp add: idx_def)
  have p: "lloyd_pass fm arr n seeds = update_seeds fm arr idx seeds [0..<n] (seeds, False)"
    using a by (simp add: lloyd_pass_def)
  have mi: "\<forall>j<length arr. idx ! j < length seeds \<and>
              (\<forall>t<length seeds. \<bar>arr ! j - seeds ! (idx ! j)\<bar> \<le> \<bar>arr ! j - seeds ! t\<bar>) \<and>
              (\<forall>t<idx ! j. \<bar>arr ! j - seeds ! (idx ! j)\<bar> < \<bar>arr ! j - seeds ! t\<bar>)"
    using assign_nearest[OF a] by blast
  have first: "\<exists>idx. assign arr seeds = Inr idx \<and> length idx = length arr \<and>
            (\<forall>j<length arr. idx ! j < length seeds \<and>
               (\<forall>t<length seeds. \<bar>arr ! j - seeds ! (idx ! j)\<bar> \<le> \<bar>arr ! j - seeds ! t\<bar>) \<and>
               (\<forall>t<idx ! j. \<bar>arr ! j - seeds ! (idx ! j)\<bar> < \<bar>arr ! j - seeds ! t\<bar>)) \<and>
            lloyd_pass fm arr n seeds = update_seeds fm arr idx seeds [0..<n] (seeds, False)"
    using a l mi p by blast
  have second: "(fst (partition_voronoi fm vals n_seeds it m rnd) = Inr (cl, s) \<or>
            fst (partition_voronoi_2 fm vals n_seeds it m rnd) = Inr (cl, s)) \<and> vals \<noteq> [] \<longrightarrow>
          (\<exists>a idx. np_array vals = Inr a \<and> length a = length vals \<and>
             assign a s = Inr idx \<and> length idx = length vals \<and>
             (\<forall>j<length vals. idx ! j < length s \<and>
                (\<forall>t<length s. \<bar>a ! j - s ! (idx ! j)\<bar> \<le> \<bar>a ! j - s ! t\<bar>) \<and>
                (\<forall>t<idx ! j. \<bar>a ! j - s ! (idx ! j)\<bar> < \<bar>a ! j - s ! t\<bar>)) \<and>
             (\<forall>k<length cl. cl ! k = map fst (filter (\<lambda>(v, i). i = k) (zip vals idx))))"
  proof
    assume h: "(fst (partition_voronoi fm vals n_seeds it m rnd) = Inr (cl, s) \<or>
            fst (partition_voronoi_2 fm vals n_seeds it m rnd) = Inr (cl, s)) \<and> vals \<noteq> []"
    then have h1: "fst (partition_voronoi fm vals n_seeds it m rnd) = Inr (cl, s) \<or>
            fst (partition_voronoi_2 fm vals n_seeds it m rnd) = Inr (cl, s)"
      and h2: "vals \<noteq> []" by blast+
    from partition_voronoi_final[OF h1 h2] obtain a' idx' where
      f: "np_array vals = Inr a'" "length a' = length vals" "assign a' s = Inr idx'"
         "length idx' = length vals" "\<forall>k<length cl. cl ! k = members vals idx' k"
      by blast
    have mf: "\<forall>j<length vals. idx' ! j < length s \<and>
                (\<forall>t<length s. \<bar>a' ! j - s ! (idx' ! j)\<bar> \<le> \<bar>a' ! j - s ! t\<bar>) \<and>
                (\<forall>t<idx' ! j. \<bar>a' ! j - s ! (idx' ! j)\<bar> < \<bar>a' ! j - s ! t\<bar>)"
      using assign_nearest[OF f(3)] f(2) by simp
    have cf: "\<forall>k<length cl. cl ! k = map fst (filter (\<lambda>(v, i). i = k) (zip vals idx'))"
      using f(5) by (simp add: members_def)
    show "\<exists>a idx. np_array vals = Inr a \<and> length a = length vals \<and>
             assign a s = Inr idx \<and> length idx = length vals \<and>
             (\<forall>j<length vals. idx ! j < length s \<and>
                (\<forall>t<length s. \<bar>a ! j - s ! (idx ! j)\<bar> \<le> \<bar>a ! j - s ! t\<bar>) \<and>
                (\<forall>t<idx ! j. \<bar>a ! j - s ! (idx ! j)\<bar> < \<bar>a ! j - s ! t\<bar>)) \<and>
             (\<forall>k<length cl. cl ! k = map fst (filter (\<lambda>(v, i). i = k) (zip vals idx)))"
      using f(1,2,3,4) mf cf by blast
  qed
  show ?thesis using first second by blast
qed

theorem assign_nearest_lowest_index_witness:
  "[2, 6 :: real] \<noteq> [] \<and>
   (\<exists>idx. assign [4, 1, 9] [2, 6] = Inr idx \<and> length idx = length [4, 1, 9 :: real] \<and>
           (\<forall>j<length [4, 1, 9 :: real]. idx ! j < length [2, 6 :: real] \<and>
              (\<forall>t<length [2, 6 :: real].
                  \<bar>[4, 1, 9] ! j - [2, 6] ! (idx ! j)\<bar> \<le> \<bar>[4, 1, 9] ! j - [2, 6 :: real] ! t\<bar>) \<and>
              (\<forall>t<idx ! j.
                  \<bar>[4, 1, 9] ! j - [2, 6] ! (idx ! j)\<bar> < \<bar>[4, 1, 9] ! j - [2, 6 :: real] ! t\<bar>)) \<and>
           lloyd_pass mean_f64 [4, 1, 9] 2 [2, 6] =
             update_seeds mean_f64 [4, 1, 9] idx [2, 6] [0..<2] ([2, 6], False)) \<and>
   assign [4, 1, 9] [2, 6] = Inr [0, 0, 1] \<and>
   fst (partition_voronoi mean_f64 [PInt 4, PFloat 1, PInt 9, PInt 3] 2 0 ''random''
          (\<lambda>i. 1 / (real i + 2))) =
     Inr ([[PInt 9], [PInt 4, PFloat 1, PInt 3]], [5, 11 / 3]) \<and>
   [PInt 4, PFloat 1, PInt 9, PInt 3] \<noteq> [] \<and>
   (\<exists>a idx. np_array [PInt 4, PFloat 1, PInt 9, PInt 3] = Inr a \<and>
      length a = length [PInt 4, PFloat 1, PInt 9, PInt 3] \<and>
      assign a [5, 11 / 3] = Inr idx \<and> length idx = length [PInt 4, PFloat 1, PInt 9, PInt 3] \<and>
      (\<forall>j<length [PInt 4, PFloat 1, PInt 9, PInt 3]. idx ! j < length [5, 11 / 3 :: real] \<and>
         (\<forall>t<length [5, 11 / 3 :: real].
             \<bar>a ! j - [5, 11 / 3] ! (idx ! j)\<bar> \<le> \<bar>a ! j - [5, 11 / 3] ! t\<bar>) \<and>
         (\<forall>t<idx ! j. \<bar>a ! j - [5, 11 / 3] ! (idx ! j)\<bar> < \<bar>a ! j - [5, 11 / 3] ! t\<bar>)) \<and>
      (\<forall>k<length [[PInt 9], [PInt 4, PFloat 1, PInt 3]].
          [[PInt 9], [PInt 4, PFloat 1, PInt 3]] ! k =
            map fst (filter (\<lambda>(v, i). i = k) (zip [PInt 4, PFloat 1, PInt 9, PInt 3] idx))))"
proof -
  have h: "[2, 6 :: real] \<noteq> []" by simp
  have v: "assign [4, 1, 9] [2, 6] = Inr [0, 0, 1]"
    by (simp add: assign_def distances_def)
  have r: "fst (partition_voronoi mean_f64 [PInt 4, PFloat 1, PInt 9, PInt 3] 2 0 ''random''
          (\<lambda>i. 1 / (real i + 2))) =
     Inr ([[PInt 9], [PInt 4, PFloat 1, PInt 3]], [5, 11 / 3])"
    by (simp add: partition_voronoi_def np_array_def random_seeds_def uniform_def
        relax_and_partition_def assign_def distances_def upt_rec numeral_2_eq_2)
  have ne: "[PInt 4, PFloat 1, PInt 9, PInt 3] \<noteq> []" by simp
  have hyp: "(fst (partition_voronoi mean_f64 [PInt 4, PFloat 1, PInt 9, PInt 3] 2 0 ''random''
          (\<lambda>i. 1 / (real i + 2))) =
     Inr ([[PInt 9], [PInt 4, PFloat 1, PInt 3]], [5, 11 / 3]) \<or>
     fst (partition_voronoi_2 mean_f64 [PInt 4, PFloat 1, PInt 9, PInt 3] 2 0 ''random''
          (\<lambda>i. 1 / (real i + 2))) =
     Inr ([[PInt 9], [PInt 4, PFloat 1, PInt 3]], [5, 11 / 3])) \<and>
     [PInt 4, PFloat 1, PInt 9, PInt 3] \<noteq> []"
    using r ne by blast
  note t = assign_nearest_lowest_index[OF h, of "[4, 1, 9]" mean_f64 2
      "[PInt 4, PFloat 1, PInt 9, PInt 3]" 2 0 "''random''" "\<lambda>i. 1 / (real i + 2)"
      "[[PInt 9], [PInt 4, PFloat 1, PInt 3]]" "[5, 11 / 3]"]
  have t1: "\<exists>idx. assign [4, 1, 9] [2, 6] = Inr idx \<and> length idx = length [4, 1, 9 :: real] \<and>
           (\<forall>j<length [4, 1, 9 :: real]. idx ! j < length [2, 6 :: real] \<and>
              (\<forall>t<length [2, 6 :: real].
                  \<bar>[4, 1, 9] ! j - [2, 6] ! (idx ! j)\<bar> \<le> \<bar>[4, 1, 9] ! j - [2, 6 :: real] ! t\<bar>) \<and>
              (\<forall>t<idx ! j.
                  \<bar>[4, 1, 9] ! j - [2, 6] ! (idx ! j)\<bar> < \<bar>[4, 1, 9] ! j - [2, 6 :: real] ! t\<bar>)) \<and>
           lloyd_pass mean_f64 [4, 1, 9] 2 [2, 6] =
             update_seeds mean_f64 [4, 1, 9] idx [2, 6] [0..<2] ([2, 6], False)"
    using t by (rule conjunct1)
  have t2: "\<exists>a idx. np_array [PInt 4, PFloat 1, PInt 9, PInt 3] = Inr a \<and>
      length a = length [PInt 4, PFloat 1, PInt 9, PInt 3] \<and>
      assign a [5, 11 / 3] = Inr idx \<and> length idx = length [PInt 4, PFloat 1, PInt 9, PInt 3] \<and>
      (\<forall>j<length [PInt 4, PFloat 1, PInt 9, PInt 3]. idx ! j < length [5, 11 / 3 :: real] \<and>
         (\<forall>t<length [5, 11 / 3 :: real].
             \<bar>a ! j - [5, 11 / 3] ! (idx ! j)\<bar> \<le> \<bar>a ! j - [5, 11 / 3] ! t\<bar>) \<and>
         (\<forall>t<idx ! j. \<bar>a ! j - [5, 11 / 3] ! (idx ! j)\<bar> < \<bar>a ! j - [5, 11 / 3] ! t\<bar>)) \<and>
      (\<forall>k<length [[PInt 9], [PInt 4, PFloat 1, PInt 3]].
          [[PInt 9], [PInt 4, PFloat 1, PInt 3]] ! k =
            map fst (filter (\<lambda>(v, i). i = k) (zip [PInt 4, PFloat 1, PInt 9, PInt 3] idx)))"
    using t[THEN conjunct2] hyp by (rule mp)
  show ?thesis using h t1 v r ne t2 by (intro conjI)
qed

text \<open>
  Claim C3. A relaxation pass over \<open>n_seeds \<ge> 1\<close> seeds raises nothing and returns
  \<open>n_seeds\<close> seeds again. A seed with at least one assigned value moves to the mean that
  \<open>members.mean()\<close> returns for its assigned values, in exact arithmetic their sum
  divided by their number; a seed with no assigned value keeps its position, and no mean
  of an empty list is taken.
\<close>

theorem lloyd_pass_recenters:
  assumes "length seeds = n" "1 \<le> n"
  shows "(\<exists>idx ns mv. assign arr seeds = Inr idx \<and> lloyd_pass fm arr n seeds = Inr (ns, mv) \<and>
            length ns = n \<and>
            (\<forall>t<n. ns ! t =
               (if members arr idx t \<noteq> [] then fm (members arr idx t) else seeds ! t))) \<and>
         (\<exists>idx ns mv. assign arr seeds = Inr idx \<and>
            lloyd_pass exact_mean arr n seeds = Inr (ns, mv) \<and>
            length ns = n \<and>
            (\<forall>t<n. ns ! t =
               (if members arr idx t \<noteq> []
                then sum_list (members arr idx t) / real (length (members arr idx t))
                else seeds ! t)))"
proof -
  have n: "0 < n" using assms(2) by simp
  have a: "\<exists>idx ns mv. assign arr seeds = Inr idx \<and> lloyd_pass fm arr n seeds = Inr (ns, mv) \<and>
            length ns = n \<and>
            (\<forall>t<n. ns ! t =
               (if members arr idx t \<noteq> [] then fm (members arr idx t) else seeds ! t))"
    using lloyd_pass_spec[OF assms(1) n, of arr fm] by blast
  have b: "\<exists>idx ns mv. assign arr seeds = Inr idx \<and>
            lloyd_pass exact_mean arr n seeds = Inr (ns, mv) \<and>
            length ns = n \<and>
            (\<forall>t<n. ns ! t =
               (if members arr idx t \<noteq> []
                then sum_list (members arr idx t) / real (length (members arr idx t))
                else seeds ! t))"
    using lloyd_pass_spec[OF assms(1) n, of arr exact_mean] unfolding exact_mean_def by blast
  show ?thesis using a b by blast
qed

theorem lloyd_pass_recenters_witness:
  "length [2, 6, 20 :: real] = 3 \<and> (1::nat) \<le> 3 \<and>
   (\<exists>idx ns mv. assign [4, 1, 9] [2, 6, 20] = Inr idx \<and>
           lloyd_pass exact_mean [4, 1, 9] 3 [2, 6, 20] = Inr (ns, mv) \<and>
           length ns = 3 \<and>
           (\<forall>t<3. ns ! t =
              (if members [4, 1, 9 :: real] idx t \<noteq> []
               then sum_list (members [4, 1, 9] idx t) / real (length (members [4, 1, 9 :: real] idx t))
               else [2, 6, 20] ! t))) \<and>
   lloyd_pass exact_mean [4, 1, 9] 3 [2, 6, 20] = Inr ([5 / 2, 9, 20], True)"
proof -
  have h: "length [2, 6, 20 :: real] = 3" by simp
  have h2: "(1::nat) \<le> 3" by simp
  have v: "lloyd_pass exact_mean [4, 1, 9] 3 [2, 6, 20] = Inr ([5 / 2, 9, 20], True)"
    by (simp add: lloyd_pass_def assign_def distances_def members_def mean_def exact_mean_def upt_rec)
  show ?thesis
    using h h2 v lloyd_pass_recenters[OF h h2, of "[4, 1, 9]" exact_mean] by blast
qed

text \<open>
  Claim C7. Every cluster that either version returns is a subsequence of the input: its
  members are elements of \<open>values\<close> themselves (not the converted floats), in the order
  of their occurrence in \<open>values\<close>. For a non-empty input, cluster \<open>k\<close> consists of the
  values whose index in the final assignment to the returned seeds is \<open>k\<close>.
\<close>

theorem clusters_preserve_order:
  assumes "fst (partition_voronoi fm vals n_seeds it m rnd) = Inr (cl, s) \<or>
           fst (partition_voronoi_2 fm vals n_seeds it m rnd) = Inr (cl, s)"
    and "k < length cl"
  shows "subseq (cl ! k) vals \<and>
         (vals \<noteq> [] \<longrightarrow>
            (\<exists>arr idx. np_array vals = Inr arr \<and> assign arr s = Inr idx \<and>
               length idx = length vals \<and>
               cl ! k = map fst (filter (\<lambda>(v, i). i = k) (zip vals idx))))"
proof (cases "vals = []")
  case True
  have n: "0 < n_seeds"
  proof (rule ccontr)
    assume "\<not> 0 < n_seeds"
    then have "n_seeds \<le> 0" by simp
    then show False
      using assms(1) partition_voronoi_raises[of n_seeds fm vals it m rnd]
        partition_voronoi_2_raises[of n_seeds fm vals it m rnd] by auto
  qed
  have "cl = replicate (nat n_seeds) []"
    using True assms(1) partition_voronoi_empty[OF n, of fm it m rnd]
      partition_voronoi_2_empty[OF n, of fm it m rnd] by auto
  then have "cl ! k = []" using assms(2) by simp
  then show ?thesis using True by simp
next
  case False
  from partition_voronoi_final[OF assms(1) False] obtain arr idx where
    c: "np_array vals = Inr arr" "assign arr s = Inr idx" "length idx = length vals"
       "\<forall>k<length cl. cl ! k = members vals idx k"
    by blast
  have e: "cl ! k = members vals idx k" using c assms(2) by simp
  have "subseq (cl ! k) vals" using e subseq_members[of vals idx k] by simp
  then show ?thesis using c e by (auto simp: members_def)
qed

theorem clusters_preserve_order_witness:
  "(fst (partition_voronoi mean_f64 [PInt 4, PFloat 1, PInt 9, PInt 3] 2 0 ''random'' (\<lambda>i. 1 / (real i + 2))) =
      Inr ([[PInt 9], [PInt 4, PFloat 1, PInt 3]], [5, 11 / 3]) \<or>
    fst (partition_voronoi_2 mean_f64 [PInt 4, PFloat 1, PInt 9, PInt 3] 2 0 ''random'' (\<lambda>i. 1 / (real i + 2))) =
      Inr ([[PInt 9], [PInt 4, PFloat 1, PInt 3]], [5, 11 / 3])) \<and>
   (1::nat) < length [[PInt 9], [PInt 4, PFloat 1, PInt 3]] \<and>
   subseq ([[PInt 9], [PInt 4, PFloat 1, PInt 3]] ! 1) [PInt 4, PFloat 1, PInt 9, PInt 3] \<and>
   (\<exists>arr idx. np_array [PInt 4, PFloat 1, PInt 9, PInt 3] = Inr arr \<and>
      assign arr [5, 11 / 3] = Inr idx \<and>
      length idx = length [PInt 4, PFloat 1, PInt 9, PInt 3] \<and>
      [[PInt 9], [PInt 4, PFloat 1, PInt 3]] ! 1 =
        map fst (filter (\<lambda>(v, i). i = 1) (zip [PInt 4, PFloat 1, PInt 9, PInt 3] idx)))"
proof -
  have v: "fst (partition_voronoi mean_f64 [PInt 4, PFloat 1, PInt 9, PInt 3] 2 0 ''random'' (\<lambda>i. 1 / (real i + 2))) =
      Inr ([[PInt 9], [PInt 4, PFloat 1, PInt 3]], [5, 11 / 3])"
    by (simp add: partition_voronoi_def np_array_def random_seeds_def uniform_def
        relax_and_partition_def assign_def distances_def upt_rec numeral_2_eq_2)
  then have h: "fst (partition_voronoi mean_f64 [PInt 4, PFloat 1, PInt 9, PInt 3] 2 0 ''random'' (\<lambda>i. 1 / (real i + 2))) =
      Inr ([[PInt 9], [PInt 4, PFloat 1, PInt 3]], [5, 11 / 3]) \<or>
    fst (partition_voronoi_2 mean_f64 [PInt 4, PFloat 1, PInt 9, PInt 3] 2 0 ''random'' (\<lambda>i. 1 / (real i + 2))) =
      Inr ([[PInt 9], [PInt 4, PFloat 1, PInt 3]], [5, 11 / 3])" by simp
  have k: "(1::nat) < length [[PInt 9], [PInt 4, PFloat 1, PInt 3]]" by simp
  have ne: "[PInt 4, PFloat 1, PInt 9, PInt 3] \<noteq> []" by simp
  show ?thesis
    using h k ne clusters_preserve_order[OF h k] by blast
qed

subsection \<open>Early termination and fixed points\<close>

lemma passes_run_le: "passes_run fm K arr n seeds \<le> K"
proof (induction K arbitrary: seeds)
  case 0
  then show ?case by simp
next
  case (Suc K)
  show ?case
  proof (cases "lloyd_pass fm arr n seeds")
    case (Inl e)
    then show ?thesis by simp
  next
    case (Inr r)
    obtain ns mv where r: "r = (ns, mv)" by (cases r)
    show ?thesis using Inr r Suc.IH[of ns] by (cases mv) auto
  qed
qed

lemma early_stop_imp_still_pass:
  assumes "length seeds = n" "0 < n" "passes_run fm K arr n seeds < K"
  shows "\<exists>i s ns mv. Suc i < K \<and> lloyd_loop fm i arr n seeds = Inr s \<and>
           lloyd_pass fm arr n s = Inr (ns, mv) \<and> ns = s"
  using assms
proof (induction K arbitrary: seeds)
  case 0
  then show ?case by simp
next
  case (Suc K)
  from lloyd_pass_spec[OF Suc.prems(1,2), of arr fm] obtain ns mv where
    p: "lloyd_pass fm arr n seeds = Inr (ns, mv)" and l: "length ns = n" and
    m: "mv = (ns \<noteq> seeds)" by blast
  show ?case
  proof (cases mv)
    case False
    then have "passes_run fm (Suc K) arr n seeds = 1" using p by simp
    then have "Suc 0 < Suc K" using Suc.prems(3) by simp
    moreover have "lloyd_loop fm 0 arr n seeds = Inr seeds" by simp
    moreover have "ns = seeds" using m False by simp
    ultimately show ?thesis using p by blast
  next
    case True
    then have "passes_run fm (Suc K) arr n seeds = Suc (passes_run fm K arr n ns)" using p by simp
    then have "passes_run fm K arr n ns < K" using Suc.prems(3) by simp
    from Suc.IH[OF l Suc.prems(2) this] obtain i s ns' mv' where
      i: "Suc i < K" "lloyd_loop fm i arr n ns = Inr s" "lloyd_pass fm arr n s = Inr (ns', mv')" "ns' = s"
      by blast
    have "lloyd_loop fm (Suc i) arr n seeds = Inr s" using p True i(2) by simp
    moreover have "Suc (Suc i) < Suc K" using i(1) by simp
    ultimately show ?thesis using i(3,4) by blast
  qed
qed

lemma still_pass_imp_early_stop:
  assumes "length seeds = n" "0 < n" "Suc i < K" "lloyd_loop fm i arr n seeds = Inr s"
    "lloyd_pass fm arr n s = Inr (ns, mv)" "ns = s"
  shows "passes_run fm K arr n seeds < K"
  using assms
proof (induction i arbitrary: seeds K)
  case 0
  then have s: "s = seeds" by simp
  have "mv = (ns \<noteq> s)"
    using lloyd_pass_unmoved(1)[where seeds=s and n=n and arr=arr and fm=fm and ns=ns and mv=mv] "0.prems" s by simp
  then have mv: "\<not> mv" using "0.prems"(6) by simp
  obtain K' where K: "K = Suc K'" using "0.prems"(3) by (cases K) auto
  have "passes_run fm K arr n seeds = 1" using K mv "0.prems"(5) s by simp
  then show ?case using "0.prems"(3) by simp
next
  case (Suc i)
  obtain K' where K: "K = Suc K'" using Suc.prems(3) by (cases K) auto
  from lloyd_pass_spec[OF Suc.prems(1,2), of arr fm] obtain ns0 mv0 where
    p: "lloyd_pass fm arr n seeds = Inr (ns0, mv0)" and l: "length ns0 = n" by blast
  show ?case
  proof (cases mv0)
    case False
    then have "passes_run fm K arr n seeds = 1" using K p by simp
    then show ?thesis using Suc.prems(3) by simp
  next
    case True
    then have ll: "lloyd_loop fm i arr n ns0 = Inr s" using Suc.prems(4) p by simp
    have "Suc i < K'" using Suc.prems(3) K by simp
    from Suc.IH[OF l Suc.prems(2) this ll Suc.prems(5,6)]
    have "passes_run fm K' arr n ns0 < K'" .
    then show ?thesis using K p True by simp
  qed
qed

lemma early_stop_fixed_point:
  assumes "length seeds = n" "0 < n" "passes_run fm K arr n seeds < K"
  shows "\<exists>s. lloyd_loop fm K arr n seeds = Inr s \<and> lloyd_pass fm arr n s = Inr (s, False)"
  using assms
proof (induction K arbitrary: seeds)
  case 0
  then show ?case by simp
next
  case (Suc K)
  from lloyd_pass_spec[OF Suc.prems(1,2), of arr fm] obtain ns mv where
    p: "lloyd_pass fm arr n seeds = Inr (ns, mv)" and l: "length ns = n" and
    m: "mv = (ns \<noteq> seeds)" by blast
  show ?case
  proof (cases mv)
    case False
    then have "ns = seeds" using m by simp
    then show ?thesis using p False by simp
  next
    case True
    then have "passes_run fm (Suc K) arr n seeds = Suc (passes_run fm K arr n ns)" using p by simp
    then have "passes_run fm K arr n ns < K" using Suc.prems(3) by simp
    from Suc.IH[OF l Suc.prems(2) this] show ?thesis using p True by simp
  qed
qed

text \<open>
  Claim C4. With \<open>n_seeds \<ge> 1\<close> seeds and a budget of \<open>K\<close> passes, the relaxation loop
  runs at most \<open>K\<close> passes, and it stops before it has run \<open>K\<close> passes exactly when one
  of its passes before the last returns the seeds it was given, equal position by
  position. A seed configuration that a pass leaves unchanged is a fixed point: the loop
  run on it with any further budget returns it unchanged. In particular the seeds
  returned after an early stop are such a fixed point. This holds whatever
  \<open>members.mean()\<close> computes, rounded or exact.
\<close>

theorem lloyd_loop_early_stop:
  assumes "length seeds = n" "1 \<le> n"
  shows "passes_run fm K arr n seeds \<le> K \<and>
         (passes_run fm K arr n seeds < K \<longleftrightarrow>
            (\<exists>i s ns mv. Suc i < K \<and> lloyd_loop fm i arr n seeds = Inr s \<and>
               lloyd_pass fm arr n s = Inr (ns, mv) \<and> ns = s)) \<and>
         (passes_run fm K arr n seeds < K \<longrightarrow>
            (\<exists>s. lloyd_loop fm K arr n seeds = Inr s \<and> lloyd_pass fm arr n s = Inr (s, False))) \<and>
         (\<forall>s mv. length s = n \<and> lloyd_pass fm arr n s = Inr (s, mv) \<longrightarrow>
            (\<forall>j. lloyd_loop fm j arr n s = Inr s))"
proof -
  have n: "0 < n" using assms(2) by simp
  have a: "passes_run fm K arr n seeds < K \<longleftrightarrow>
            (\<exists>i s ns mv. Suc i < K \<and> lloyd_loop fm i arr n seeds = Inr s \<and>
               lloyd_pass fm arr n s = Inr (ns, mv) \<and> ns = s)"
    using early_stop_imp_still_pass[OF assms(1) n, where K=K and arr=arr and fm=fm]
      still_pass_imp_early_stop[OF assms(1) n, where K=K and arr=arr and fm=fm]
    by blast
  have b: "passes_run fm K arr n seeds < K \<longrightarrow>
            (\<exists>s. lloyd_loop fm K arr n seeds = Inr s \<and> lloyd_pass fm arr n s = Inr (s, False))"
    using early_stop_fixed_point[OF assms(1) n, where K=K and arr=arr and fm=fm] by blast
  have c: "\<forall>s mv. length s = n \<and> lloyd_pass fm arr n s = Inr (s, mv) \<longrightarrow>
            (\<forall>j. lloyd_loop fm j arr n s = Inr s)"
  proof (intro allI impI)
    fix s mv j assume h: "length s = n \<and> lloyd_pass fm arr n s = Inr (s, mv)"
    then have "mv = (s \<noteq> s)" using lloyd_pass_unmoved(1)[where seeds=s and n=n and arr=arr and fm=fm and ns=s and mv=mv] n by simp
    then have "lloyd_pass fm arr n s = Inr (s, False)" using h by simp
    then show "lloyd_loop fm j arr n s = Inr s" by (rule lloyd_loop_fixed)
  qed
  show ?thesis using passes_run_le[where K=K and arr=arr and n=n and seeds=seeds and fm=fm] a b c by blast
qed

theorem lloyd_loop_early_stop_witness:
  "length [1, 9 :: real] = 2 \<and> (1::nat) \<le> 2 \<and>
   passes_run exact_mean 5 [1, 2, 9] 2 [1, 9] = 2 \<and>
   (\<exists>i s ns mv. Suc i < 5 \<and> lloyd_loop exact_mean i [1, 2, 9] 2 [1, 9] = Inr s \<and>
      lloyd_pass exact_mean [1, 2, 9] 2 s = Inr (ns, mv) \<and> ns = s) \<and>
   lloyd_loop exact_mean 5 [1, 2, 9] 2 [1, 9] = Inr [3 / 2, 9] \<and>
   lloyd_pass exact_mean [1, 2, 9] 2 [3 / 2, 9] = Inr ([3 / 2, 9], False) \<and>
   (\<forall>j. lloyd_loop exact_mean j [1, 2, 9] 2 [3 / 2, 9] = Inr [3 / 2, 9])"
proof -
  have h1: "length [1, 9 :: real] = 2" by simp
  have h2: "(1::nat) \<le> 2" by simp
  have p0: "lloyd_pass exact_mean [1, 2, 9] 2 [1, 9] = Inr ([3 / 2, 9], True)"
    by (simp add: lloyd_pass_def assign_def distances_def members_def mean_def exact_mean_def upt_rec)
  have p1: "lloyd_pass exact_mean [1, 2, 9] 2 [3 / 2, 9] = Inr ([3 / 2, 9], False)"
    by (simp add: lloyd_pass_def assign_def distances_def members_def mean_def exact_mean_def upt_rec)
  have q0: "lloyd_pass exact_mean [1, 2, 9] (Suc (Suc 0)) [1, 9] = Inr ([3 / 2, 9], True)"
    using p0 by (simp add: numeral_2_eq_2)
  have q1: "lloyd_pass exact_mean [1, 2, 9] (Suc (Suc 0)) [3 / 2, 9] = Inr ([3 / 2, 9], False)"
    using p1 by (simp add: numeral_2_eq_2)
  have r: "passes_run exact_mean 5 [1, 2, 9] 2 [1, 9] = 2"
    by (simp add: eval_nat_numeral q0 q1)
  have l: "lloyd_loop exact_mean 5 [1, 2, 9] 2 [1, 9] = Inr [3 / 2, 9]"
    by (simp add: eval_nat_numeral q0 q1)
  have h3: "passes_run exact_mean 5 [1, 2, 9] 2 [1, 9] < 5" using r by simp
  have h4: "length [3 / 2, 9 :: real] = 2 \<and> lloyd_pass exact_mean [1, 2, 9] 2 [3 / 2, 9] = Inr ([3 / 2, 9], False)"
    using p1 by simp
  from lloyd_loop_early_stop[OF h1 h2, where K=5 and arr="[1, 2, 9]" and fm=exact_mean] have
    t1: "passes_run exact_mean 5 [1, 2, 9] 2 [1, 9] < 5 \<longleftrightarrow>
            (\<exists>i s ns mv. Suc i < 5 \<and> lloyd_loop exact_mean i [1, 2, 9] 2 [1, 9] = Inr s \<and>
               lloyd_pass exact_mean [1, 2, 9] 2 s = Inr (ns, mv) \<and> ns = s)" and
    t3: "\<forall>s mv. length s = 2 \<and> lloyd_pass exact_mean [1, 2, 9] 2 s = Inr (s, mv) \<longrightarrow>
            (\<forall>j. lloyd_loop exact_mean j [1, 2, 9] 2 s = Inr s)"
    by blast+
  have c1: "\<exists>i s ns mv. Suc i < 5 \<and> lloyd_loop exact_mean i [1, 2, 9] 2 [1, 9] = Inr s \<and>
      lloyd_pass exact_mean [1, 2, 9] 2 s = Inr (ns, mv) \<and> ns = s"
    using t1 h3 by blast
  have c3: "\<forall>j. lloyd_loop exact_mean j [1, 2, 9] 2 [3 / 2, 9] = Inr [3 / 2, 9]"
    using t3 h4 by blast
  show ?thesis using h1 h2 r c1 l p1 c3 by blast
qed

subsection \<open>Rounding to double precision\<close>

lemma exponent_search_eq:
  assumes "e \<le> e0" "e0 - int k \<le> e" "2 powi e \<le> y" "y < 2 powi (e + 1)"
  shows "exponent_search k e0 y = e"
  using assms
proof (induction k arbitrary: e0)
  case 0
  then show ?case by simp
next
  case (Suc k)
  show ?case
  proof (cases "2 powi e0 \<le> y")
    case True
    have "\<not> e + 1 \<le> e0"
    proof
      assume "e + 1 \<le> e0"
      then have "(2::real) powi (e + 1) \<le> 2 powi e0" by (rule power_int_increasing) simp
      then show False using True Suc.prems(4) by simp
    qed
    then have "e0 = e" using Suc.prems(1) by simp
    then show ?thesis using True by simp
  next
    case False
    then have "e0 \<noteq> e" using Suc.prems(3) by auto
    then have a: "e \<le> e0 - 1" using Suc.prems(1) by simp
    have b: "(e0 - 1) - int k \<le> e" using Suc.prems(2) by simp
    from Suc.IH[OF a b Suc.prems(3,4)] False show ?thesis by simp
  qed
qed

lemma exponent_f64_eq:
  assumes "- 1022 \<le> e" "e \<le> 1023" "2 powi e \<le> \<bar>x\<bar>" "\<bar>x\<bar> < 2 powi (e + 1)"
  shows "exponent_f64 x = e"
  unfolding exponent_f64_def
  by (rule exponent_search_eq) (use assms in simp_all)

lemma round_f64_binade:
  assumes "- 1022 \<le> e" "e \<le> 1023" "2 powi e \<le> \<bar>x\<bar>" "\<bar>x\<bar> < 2 powi (e + 1)"
  shows "round_f64 x = 2 powi (e - 52) * real_of_int (round_half_even (x / 2 powi (e - 52)))"
  unfolding round_f64_def exponent_f64_eq[OF assms] Let_def ..

lemma mean_f64_tenths:
  "mean_f64 [3602879701896397 / 36028797018963968, 3602879701896397 / 36028797018963968,
             3602879701896397 / 36028797018963968] =
   7205759403792795 / 72057594037927936"
proof -
  have r1: "round_f64 (3602879701896397 / 36028797018963968) = 3602879701896397 / 36028797018963968"
    by (subst round_f64_binade[where e="- 4"]) (simp_all add: round_half_even_def)
  have r2: "round_f64 (3602879701896397 / 18014398509481984) = 3602879701896397 / 18014398509481984"
    by (subst round_f64_binade[where e="- 3"]) (simp_all add: round_half_even_def)
  have r3: "round_f64 (10808639105689191 / 36028797018963968) = 1351079888211149 / 4503599627370496"
    by (subst round_f64_binade[where e="- 2"]) (simp_all add: round_half_even_def)
  have r4: "round_f64 (1351079888211149 / 13510798882111488) = 7205759403792795 / 72057594037927936"
    by (subst round_f64_binade[where e="- 4"]) (simp_all add: round_half_even_def)
  have s: "sum_f64 [3602879701896397 / 36028797018963968, 3602879701896397 / 36028797018963968,
             3602879701896397 / 36028797018963968] = 1351079888211149 / 4503599627370496"
    by (simp add: sum_f64_def r1 r2 r3)
  show ?thesis by (simp add: mean_f64_def s r4)
qed

lemma mean_f64_fives: "mean_f64 [5, 5, 5, 5] = 5"
proof -
  have r1: "round_f64 5 = 5"
    by (subst round_f64_binade[where e=2]) (simp_all add: round_half_even_def)
  have r2: "round_f64 10 = 10"
    by (subst round_f64_binade[where e=3]) (simp_all add: round_half_even_def)
  have r3: "round_f64 15 = 15"
    by (subst round_f64_binade[where e=3]) (simp_all add: round_half_even_def)
  have r4: "round_f64 20 = 20"
    by (subst round_f64_binade[where e=4]) (simp_all add: round_half_even_def)
  have s: "sum_f64 [5, 5, 5, 5] = 20" by (simp add: sum_f64_def r1 r2 r3 r4)
  show ?thesis by (simp add: mean_f64_def s r1)
qed

subsection \<open>Identical values with random initialisation\<close>

lemma fold_min_replicate: "fold min (replicate k c) (c::real) = c"
  by (induction k) auto

lemma fold_max_replicate: "fold max (replicate k c) (c::real) = c"
  by (induction k) auto

lemma np_array_const:
  assumes "\<forall>v\<in>set vals. to_float v = Inr c"
  shows "np_array vals = Inr (replicate (length vals) c)"
  using assms unfolding np_array_def by (induction vals) auto

lemma argmin_all_zero:
  assumes "0 < n"
  shows "argmin (replicate n 0) = 0"
proof (rule ccontr)
  assume a: "argmin (replicate n 0) \<noteq> 0"
  have ne: "replicate n (0::real) \<noteq> []" using assms by auto
  from argmin_first_min[OF ne] have
    b: "argmin (replicate n 0) < n" and
    f: "\<forall>t<argmin (replicate n 0). replicate n (0::real) ! argmin (replicate n 0) < replicate n 0 ! t"
    by auto
  from a f have "replicate n (0::real) ! argmin (replicate n 0) < replicate n 0 ! 0" by simp
  then show False using b assms by simp
qed

lemma assign_equal_seeds:
  assumes "0 < n"
  shows "assign (replicate L c) (replicate n c) = Inr (replicate L 0)"
proof -
  have d: "distances (replicate n c) c = replicate n 0" by (simp add: distances_def)
  have "map (\<lambda>a. argmin (distances (replicate n c) a)) (replicate L c) = replicate L 0"
    using d argmin_all_zero[OF assms] by simp
  then show ?thesis using assms by (simp add: assign_def)
qed

lemma members_all_zero:
  "members xs (replicate (length xs) 0) t = (if t = 0 then xs else [])"
  by (induction xs) (auto simp: members_def)

lemma lloyd_pass_equal_seeds:
  assumes "0 < n" "0 < L" "fm (replicate L c) = c"
  shows "lloyd_pass fm (replicate L c) n (replicate n c) = Inr (replicate n c, False)"
proof -
  have l: "length (replicate n c) = n" by simp
  from lloyd_pass_spec[OF l assms(1), of "replicate L c" fm] obtain idx ns mv where
    a: "assign (replicate L c) (replicate n c) = Inr idx" and
    p: "lloyd_pass fm (replicate L c) n (replicate n c) = Inr (ns, mv)" and
    ln: "length ns = n" and
    v: "\<forall>t<n. ns ! t =
          (if members (replicate L c) idx t \<noteq> []
           then fm (members (replicate L c) idx t)
           else replicate n c ! t)" and
    m: "mv = (ns \<noteq> replicate n c)"
    by blast
  have idx: "idx = replicate (length (replicate L c)) 0"
    using a assign_equal_seeds[OF assms(1), of L c] by simp
  have "\<forall>t<n. ns ! t = c"
  proof (intro allI impI)
    fix t assume t: "t < n"
    show "ns ! t = c"
    proof (cases "t = 0")
      case True
      have "members (replicate L c) idx 0 = replicate L c"
        unfolding idx using members_all_zero[of "replicate L c" 0] by simp
      then show ?thesis using v t True assms(2,3) by simp
    next
      case False
      have "members (replicate L c) idx t = []"
        unfolding idx using False members_all_zero[of "replicate L c" t] by simp
      then show ?thesis using v t by simp
    qed
  qed
  then have "ns = replicate n c" using ln by (simp add: list_eq_iff_nth_eq)
  then show ?thesis using p m by simp
qed

lemma relax_and_partition_equal_seeds:
  assumes "0 < n" "vals \<noteq> []" "it \<le> 0 \<or> fm (replicate (length vals) c) = c"
  shows "relax_and_partition fm vals (replicate (length vals) c) n it (replicate n c) =
           Inr (vals # replicate (n - 1) [], replicate n c)"
proof -
  let ?L = "length vals"
  have L: "0 < ?L" using assms(2) by simp
  have ll: "lloyd_loop fm (nat it) (replicate ?L c) n (replicate n c) = Inr (replicate n c)"
  proof (cases "it \<le> 0")
    case True
    then have "nat it = 0" by simp
    then show ?thesis by simp
  next
    case False
    then have "fm (replicate ?L c) = c" using assms(3) by simp
    then have "lloyd_pass fm (replicate ?L c) n (replicate n c) = Inr (replicate n c, False)"
      by (rule lloyd_pass_equal_seeds[OF assms(1) L])
    then show ?thesis by (rule lloyd_loop_fixed)
  qed
  have l0: "length (replicate n c) = n" by simp
  have lv: "length vals = length (replicate ?L c)" by simp
  from relax_and_partition_spec[OF l0 assms(1) lv, of fm it] obtain cl s idx where
    r: "relax_and_partition fm vals (replicate ?L c) n it (replicate n c) = Inr (cl, s)" and
    s: "lloyd_loop fm (nat it) (replicate ?L c) n (replicate n c) = Inr s" and
    a: "assign (replicate ?L c) s = Inr idx" and
    lc: "length cl = n" and
    c: "\<forall>k<n. cl ! k = members vals idx k"
    by blast
  have s': "s = replicate n c" using s ll by simp
  have idx: "idx = replicate ?L 0"
    using a s' assign_equal_seeds[OF assms(1), of ?L c] by simp
  have "\<forall>k<n. cl ! k = (vals # replicate (n - 1) []) ! k"
  proof (intro allI impI)
    fix k assume k: "k < n"
    have "cl ! k = (if k = 0 then vals else [])"
      using c k unfolding idx by (simp add: members_all_zero)
    then show "cl ! k = (vals # replicate (n - 1) []) ! k"
      using k by (cases k) auto
  qed
  then have "cl = vals # replicate (n - 1) []"
    using lc assms(1) by (simp add: list_eq_iff_nth_eq)
  then show ?thesis using r s' by simp
qed

lemma random_seeds_equal_values:
  assumes "0 < L"
  shows "fst (random_seeds (replicate L c) n rnd) = Inr (replicate n c)"
    and "fst (random_seeds_2 (replicate L c) n rnd) = Inr (replicate n c)"
proof -
  obtain k where k: "L = Suc k" using assms by (cases L) auto
  have arr: "replicate L c = c # replicate k c" using k by simp
  have lo: "array_min (replicate L c) = Inr c"
    unfolding arr by (simp only: array_min.simps fold_min_replicate)
  have hi: "array_max (replicate L c) = Inr c"
    unfolding arr by (simp only: array_max.simps fold_max_replicate)
  have u: "map (\<lambda>i. uniform c c (rnd i)) [0..<n] = replicate n c"
    by (simp add: uniform_def map_replicate_const)
  have u2: "map (\<lambda>i. c) [0..<n] = replicate n c"
    by (simp add: map_replicate_const)
  show "fst (random_seeds (replicate L c) n rnd) = Inr (replicate n c)"
    using lo hi u by (simp add: random_seeds_def)
  show "fst (random_seeds_2 (replicate L c) n rnd) = Inr (replicate n c)"
    using lo hi u2 by (simp add: random_seeds_2_def)
qed

text \<open>
  Claim C8, amended. With \<open>init_method = "random"\<close>, \<open>n_seeds \<ge> 1\<close> and a non-empty
  input whose values all convert to the same float \<open>c\<close>, both versions raise nothing, and
  every initial seed equals \<open>c\<close>: the version without the \<open>lo == hi\<close> test reaches it
  through \<open>uniform(c, c) = c + (c - c) * random()\<close>. When no relaxation pass runs
  (\<open>lloyd_iters \<le> 0\<close>), or when the mean that \<open>members.mean()\<close> computes for the values
  is exactly \<open>c\<close>, every returned seed equals \<open>c\<close>, cluster 0 holds every input value in
  input order and every other cluster is empty.
\<close>

theorem equal_values_random_init:
  assumes "vals \<noteq> []" "\<forall>v\<in>set vals. to_float v = Inr c" "1 \<le> n_seeds"
  shows "np_array vals = Inr (replicate (length vals) c) \<and>
         fst (random_seeds (replicate (length vals) c) (nat n_seeds) rnd) =
           Inr (replicate (nat n_seeds) c) \<and>
         fst (random_seeds_2 (replicate (length vals) c) (nat n_seeds) rnd) =
           Inr (replicate (nat n_seeds) c) \<and>
         (\<exists>r. fst (partition_voronoi fm vals n_seeds it ''random'' rnd) = Inr r) \<and>
         (\<exists>r. fst (partition_voronoi_2 fm vals n_seeds it ''random'' rnd) = Inr r) \<and>
         (it \<le> 0 \<or> fm (replicate (length vals) c) = c \<longrightarrow>
            fst (partition_voronoi fm vals n_seeds it ''random'' rnd) =
              Inr (vals # replicate (nat n_seeds - 1) [], replicate (nat n_seeds) c) \<and>
            fst (partition_voronoi_2 fm vals n_seeds it ''random'' rnd) =
              Inr (vals # replicate (nat n_seeds - 1) [], replicate (nat n_seeds) c))"
proof -
  have n: "0 < n_seeds" using assms(3) by simp
  have n': "0 < nat n_seeds" using n by simp
  have L: "0 < length vals" using assms(1) by simp
  have arr: "np_array vals = Inr (replicate (length vals) c)"
    by (rule np_array_const[OF assms(2)])
  have s1: "fst (random_seeds (replicate (length vals) c) (nat n_seeds) rnd) =
           Inr (replicate (nat n_seeds) c)"
    by (rule random_seeds_equal_values(1)[OF L])
  have s2: "fst (random_seeds_2 (replicate (length vals) c) (nat n_seeds) rnd) =
           Inr (replicate (nat n_seeds) c)"
    by (rule random_seeds_equal_values(2)[OF L])
  have e1: "\<exists>r. fst (partition_voronoi fm vals n_seeds it ''random'' rnd) = Inr r"
    using partition_voronoi_returns[OF n arr, of fm it "''random''" rnd] by fastforce
  have e2: "\<exists>r. fst (partition_voronoi_2 fm vals n_seeds it ''random'' rnd) = Inr r"
    using partition_voronoi_2_returns[OF n arr, of fm it "''random''" rnd] by fastforce
  obtain r1 where i1: "random_seeds (replicate (length vals) c) (nat n_seeds) rnd =
      (Inr (replicate (nat n_seeds) c), r1)"
    using s1 by (cases "random_seeds (replicate (length vals) c) (nat n_seeds) rnd") auto
  obtain r2 where i2: "random_seeds_2 (replicate (length vals) c) (nat n_seeds) rnd =
      (Inr (replicate (nat n_seeds) c), r2)"
    using s2 by (cases "random_seeds_2 (replicate (length vals) c) (nat n_seeds) rnd") auto
  have j1: "(if ''random'' = ''quantile''
             then (quantile_seeds (replicate (length vals) c) (nat n_seeds), rnd)
             else random_seeds (replicate (length vals) c) (nat n_seeds) rnd) =
            (Inr (replicate (nat n_seeds) c), r1)"
    using i1 by simp
  have j2: "(if ''random'' = ''quantile''
             then (quantile_seeds (replicate (length vals) c) (nat n_seeds), rnd)
             else random_seeds_2 (replicate (length vals) c) (nat n_seeds) rnd) =
            (Inr (replicate (nat n_seeds) c), r2)"
    using i2 by simp
  have u1: "partition_voronoi fm vals n_seeds it ''random'' rnd =
      (relax_and_partition fm vals (replicate (length vals) c) (nat n_seeds) it
         (replicate (nat n_seeds) c), r1)"
    by (rule partition_voronoi_unfold[OF n assms(1) arr j1])
  have u2: "partition_voronoi_2 fm vals n_seeds it ''random'' rnd =
      (relax_and_partition fm vals (replicate (length vals) c) (nat n_seeds) it
         (replicate (nat n_seeds) c), r2)"
    by (rule partition_voronoi_2_unfold[OF n assms(1) arr j2])
  have f: "it \<le> 0 \<or> fm (replicate (length vals) c) = c \<longrightarrow>
            fst (partition_voronoi fm vals n_seeds it ''random'' rnd) =
              Inr (vals # replicate (nat n_seeds - 1) [], replicate (nat n_seeds) c) \<and>
            fst (partition_voronoi_2 fm vals n_seeds it ''random'' rnd) =
              Inr (vals # replicate (nat n_seeds - 1) [], replicate (nat n_seeds) c)"
  proof
    assume h: "it \<le> 0 \<or> fm (replicate (length vals) c) = c"
    have "relax_and_partition fm vals (replicate (length vals) c) (nat n_seeds) it
            (replicate (nat n_seeds) c) =
          Inr (vals # replicate (nat n_seeds - 1) [], replicate (nat n_seeds) c)"
      by (rule relax_and_partition_equal_seeds[where fm=fm and c=c and it=it, OF n' assms(1) h])
    then show "fst (partition_voronoi fm vals n_seeds it ''random'' rnd) =
              Inr (vals # replicate (nat n_seeds - 1) [], replicate (nat n_seeds) c) \<and>
            fst (partition_voronoi_2 fm vals n_seeds it ''random'' rnd) =
              Inr (vals # replicate (nat n_seeds - 1) [], replicate (nat n_seeds) c)"
      using u1 u2 by simp
  qed
  show ?thesis using arr s1 s2 e1 e2 f by blast
qed

theorem equal_values_random_init_witness:
  "[PInt 5, PInt 5, PFloat 5, PInt 5] \<noteq> [] \<and>
   map to_float [PInt 5, PInt 5, PFloat 5, PInt 5] = [Inr 5, Inr 5, Inr 5, Inr 5] \<and>
   (1::int) \<le> 2 \<and> mean_f64 [5, 5, 5, 5] = 5 \<and>
   np_array [PInt 5, PInt 5, PFloat 5, PInt 5] = Inr [5, 5, 5, 5] \<and>
   fst (random_seeds [5, 5, 5, 5] 2 (\<lambda>i. 1 / (real i + 2))) = Inr [5, 5] \<and>
   fst (random_seeds_2 [5, 5, 5, 5] 2 (\<lambda>i. 1 / (real i + 2))) = Inr [5, 5] \<and>
   fst (partition_voronoi mean_f64 [PInt 5, PInt 5, PFloat 5, PInt 5] 2 3 ''random''
          (\<lambda>i. 1 / (real i + 2))) =
     Inr ([[PInt 5, PInt 5, PFloat 5, PInt 5], []], [5, 5]) \<and>
   fst (partition_voronoi_2 mean_f64 [PInt 5, PInt 5, PFloat 5, PInt 5] 2 3 ''random''
          (\<lambda>i. 1 / (real i + 2))) =
     Inr ([[PInt 5, PInt 5, PFloat 5, PInt 5], []], [5, 5])"
proof -
  have h1: "[PInt 5, PInt 5, PFloat 5, PInt 5] \<noteq> []" by simp
  have h2: "\<forall>v\<in>set [PInt 5, PInt 5, PFloat 5, PInt 5]. to_float v = Inr 5" by simp
  have h3: "(1::int) \<le> 2" by simp
  have h4: "mean_f64 [5, 5, 5, 5] = 5" by (rule mean_f64_fives)
  have m: "map to_float [PInt 5, PInt 5, PFloat 5, PInt 5] = [Inr 5, Inr 5, Inr 5, Inr 5]" by simp
  have r: "replicate 2 (5::real) = [5, 5]" by (simp add: numeral_2_eq_2)
  note t = equal_values_random_init[OF h1 h2 h3, of "\<lambda>i. 1 / (real i + 2)" mean_f64 3]
  show ?thesis
    using h1 m h3 h4 t by (simp add: r)
qed

text \<open>
  The claim as it is written fails once a relaxation pass runs and the double-precision
  mean of the equal values is not the value itself. For \<open>values = [0.1, 0.1, 0.1]\<close> (the
  double nearest to one tenth is \<open>3602879701896397 / 2^55\<close>), \<open>n_seeds = 2\<close> and
  \<open>lloyd_iters = 1\<close>, both seeds start at \<open>0.1\<close>; the pass gives all values to seed 0
  and moves it to their mean \<open>0.10000000000000002\<close>, the next double; the final
  assignment then finds seed 1 nearer, so that cluster 0 is empty, cluster 1 holds every
  value, and seed 0 differs from the common value.
\<close>

theorem equal_values_random_init_counterexample:
  "fst (partition_voronoi mean_f64
          [PFloat (3602879701896397 / 36028797018963968),
           PFloat (3602879701896397 / 36028797018963968),
           PFloat (3602879701896397 / 36028797018963968)] 2 1 ''random'' (\<lambda>i. 1 / 2)) =
     Inr ([[], [PFloat (3602879701896397 / 36028797018963968),
                PFloat (3602879701896397 / 36028797018963968),
                PFloat (3602879701896397 / 36028797018963968)]],
          [7205759403792795 / 72057594037927936, 3602879701896397 / 36028797018963968]) \<and>
   fst (partition_voronoi_2 mean_f64
          [PFloat (3602879701896397 / 36028797018963968),
           PFloat (3602879701896397 / 36028797018963968),
           PFloat (3602879701896397 / 36028797018963968)] 2 1 ''random'' (\<lambda>i. 1 / 2)) =
     Inr ([[], [PFloat (3602879701896397 / 36028797018963968),
                PFloat (3602879701896397 / 36028797018963968),
                PFloat (3602879701896397 / 36028797018963968)]],
          [7205759403792795 / 72057594037927936, 3602879701896397 / 36028797018963968])"
proof -
  have p: "lloyd_pass mean_f64
             [3602879701896397 / 36028797018963968, 3602879701896397 / 36028797018963968,
              3602879701896397 / 36028797018963968] 2
             [3602879701896397 / 36028797018963968, 3602879701896397 / 36028797018963968] =
           Inr ([7205759403792795 / 72057594037927936, 3602879701896397 / 36028797018963968], True)"
    by (simp add: lloyd_pass_def assign_def distances_def members_def mean_def upt_rec
        mean_f64_tenths)
  have q: "assign
             [3602879701896397 / 36028797018963968, 3602879701896397 / 36028797018963968,
              3602879701896397 / 36028797018963968]
             [7205759403792795 / 72057594037927936, 3602879701896397 / 36028797018963968] =
           Inr [1, 1, 1]"
    by (simp add: assign_def distances_def)
  have rep: "replicate 2 ([]::pynum list) = [[], []]" by (simp add: numeral_2_eq_2)
  have r: "relax_and_partition mean_f64
             [PFloat (3602879701896397 / 36028797018963968),
              PFloat (3602879701896397 / 36028797018963968),
              PFloat (3602879701896397 / 36028797018963968)]
             [3602879701896397 / 36028797018963968, 3602879701896397 / 36028797018963968,
              3602879701896397 / 36028797018963968] 2 1
             [3602879701896397 / 36028797018963968, 3602879701896397 / 36028797018963968] =
           Inr ([[], [PFloat (3602879701896397 / 36028797018963968),
                      PFloat (3602879701896397 / 36028797018963968),
                      PFloat (3602879701896397 / 36028797018963968)]],
                [7205759403792795 / 72057594037927936, 3602879701896397 / 36028797018963968])"
    by (simp add: relax_and_partition_def p q rep)
  show ?thesis
    by (simp add: partition_voronoi_def partition_voronoi_2_def np_array_def random_seeds_def
        random_seeds_2_def uniform_def upt_rec r)
qed

end
